(* ===== verification/Prelude.thy ===== *)
theory Prelude
  imports Main
begin

text \<open>
  What every component shares: the result type of a fallible operation, the state-passing
  shape of an operation with effects, the collections that carry the component proofs, and
  a few facts on lists that the text and file-system layers both use.

  A Rust \<open>Result<T, E>\<close> is \<open>('e, 'a) result\<close>, that is \<open>'e + 'a\<close> with \<open>Inl\<close> for
  \<open>Err\<close>. An operation on the world is a function of the world that returns its result
  and the world afterwards; an early return by \<open>?\<close> is the \<open>Inl\<close> branch of a case.
\<close>

type_synonym ('e, 'a) result = "'e + 'a"

type_synonym ('w, 'e, 'a) action = "'w \<Rightarrow> ('e, 'a) result \<times> 'w"

abbreviation Err :: "'e \<Rightarrow> ('e, 'a) result" where
  "Err \<equiv> Inl"

abbreviation Ok :: "'a \<Rightarrow> ('e, 'a) result" where
  "Ok \<equiv> Inr"

text \<open>\<open>std::io::Error\<close>: a kind and the message it displays.\<close>

datatype io_kind =
    NotFound | PermissionDenied | AlreadyExists | InvalidInput | InvalidData | Interrupted
  | NotADirectory | IsADirectory | DirectoryNotEmpty | FilesystemLoop | OtherKind

datatype io_error = IoError io_kind string

fun io_kind_of :: "io_error \<Rightarrow> io_kind" where
  "io_kind_of (IoError k _) = k"

fun io_display :: "io_error \<Rightarrow> string" where
  "io_display (IoError _ m) = m"

named_theorems result_simps \<open>how a result is taken apart\<close>
named_theorems text_simps \<open>evaluation of the text functions\<close>
named_theorems fs_simps \<open>lookup after an operation of the file system\<close>

definition is_ok :: "('e, 'a) result \<Rightarrow> bool" where
  "is_ok r = (case r of Inl _ \<Rightarrow> False | Inr _ \<Rightarrow> True)"

definition map_err :: "('e \<Rightarrow> 'f) \<Rightarrow> ('e, 'a) result \<Rightarrow> ('f, 'a) result" where
  "map_err f r = (case r of Inl e \<Rightarrow> Inl (f e) | Inr x \<Rightarrow> Inr x)"

definition ok_or :: "'e \<Rightarrow> 'a option \<Rightarrow> ('e, 'a) result" where
  "ok_or e x = (case x of None \<Rightarrow> Inl e | Some y \<Rightarrow> Inr y)"

definition unwrap_or :: "'a \<Rightarrow> 'a option \<Rightarrow> 'a" where
  "unwrap_or d x = (case x of None \<Rightarrow> d | Some y \<Rightarrow> y)"

text \<open>Going on with the value of a result, as \<open>?\<close> does.\<close>

definition and_then :: "('e, 'a) result \<Rightarrow> ('a \<Rightarrow> ('e, 'b) result) \<Rightarrow> ('e, 'b) result" where
  "and_then r f = (case r of Inl e \<Rightarrow> Inl e | Inr x \<Rightarrow> f x)"

lemma and_then_simps [simp, result_simps]: "and_then (Inl e) f = Inl e" "and_then (Inr x) f = f x"
  by (simp_all add: and_then_def)

lemma and_then_eq_Inr [result_simps]: "and_then r f = Inr y \<longleftrightarrow> (\<exists>x. r = Inr x \<and> f x = Inr y)"
  by (cases r) simp_all

lemma is_ok_simps [simp, result_simps]: "is_ok (Inl e) = False" "is_ok (Inr x) = True"
  by (simp_all add: is_ok_def)

lemma map_err_simps [simp, result_simps]:
  "map_err f (Inl e) = Inl (f e)" "map_err f (Inr x) = Inr x"
  by (simp_all add: map_err_def)

lemma map_err_eq_Inr [simp, result_simps]: "map_err f r = Inr x \<longleftrightarrow> r = Inr x"
  by (cases r) simp_all

lemma map_err_eq_Inl [result_simps]: "map_err f r = Inl e \<longleftrightarrow> (\<exists>e'. r = Inl e' \<and> e = f e')"
  by (cases r) auto

lemma ok_or_simps [simp, result_simps]: "ok_or e None = Inl e" "ok_or e (Some x) = Inr x"
  by (simp_all add: ok_or_def)

lemma unwrap_or_simps [simp, result_simps]: "unwrap_or d None = d" "unwrap_or d (Some x) = x"
  by (simp_all add: unwrap_or_def)

lemma result_unit: "(\<forall>e. r \<noteq> Inl e) \<longleftrightarrow> r = Inr ()"
  by (cases r) auto

lemma is_ok_iff: "is_ok r \<longleftrightarrow> (\<exists>x. r = Inr x)"
  by (cases r) simp_all

subsection \<open>Lists\<close>

text \<open>The longest prefix free of a separator, and what follows it.\<close>

lemma takeWhile_dropWhile_append_stop:
  assumes "\<forall>x\<in>set xs. P x" and "ys = [] \<or> \<not> P (hd ys)"
  shows "takeWhile P (xs @ ys) = xs" and "dropWhile P (xs @ ys) = ys"
proof -
  have "takeWhile P ys = []" and "dropWhile P ys = ys"
    using assms(2) by (cases ys; simp)+
  then show "takeWhile P (xs @ ys) = xs" and "dropWhile P (xs @ ys) = ys"
    using assms(1) by simp_all
qed

text \<open>Removing from both ends what a predicate accepts leaves a list guarded by others.\<close>

definition strip_both :: "('a \<Rightarrow> bool) \<Rightarrow> 'a list \<Rightarrow> 'a list" where
  "strip_both P xs = rev (dropWhile P (rev (dropWhile P xs)))"

lemma strip_both_nil [simp]: "strip_both P [] = []"
  by (simp add: strip_both_def)

lemma dropWhile_id: "xs = [] \<or> \<not> P (hd xs) \<Longrightarrow> dropWhile P xs = xs"
  by (cases xs) simp_all

lemma strip_both_id:
  assumes "xs \<noteq> []" "\<not> P (hd xs)" "\<not> P (last xs)"
  shows "strip_both P xs = xs"
  using assms by (simp add: strip_both_def dropWhile_id hd_rev)

lemma strip_both_pad:
  assumes "xs \<noteq> []" "\<not> P (hd xs)" "\<not> P (last xs)" "\<forall>x\<in>set us. P x" "\<forall>x\<in>set vs. P x"
  shows "strip_both P (us @ xs @ vs) = xs"
proof -
  have "dropWhile P (us @ xs @ vs) = xs @ vs"
    using assms(1,2,4) by (cases xs) (simp_all add: dropWhile_append2)
  moreover have "dropWhile P (rev vs @ rev xs) = rev xs"
    using assms(1,3,5) dropWhile_id [of "rev xs" P] dropWhile_append2 [of "rev vs" P "rev xs"]
    by (simp add: hd_rev)
  ultimately show ?thesis by (simp add: strip_both_def)
qed

lemma strip_both_map: "strip_both P (map f xs) = map f (strip_both (P \<circ> f) xs)"
  by (simp add: strip_both_def dropWhile_map rev_map)

lemma strip_both_all: "\<forall>x\<in>set xs. P x \<Longrightarrow> strip_both P xs = []"
  by (auto simp: strip_both_def dest: set_dropWhileD)

end
