(* ===== verification/Text.thy ===== *)
theory Text
  imports Prelude
begin

text \<open>
  The part of Rust's \<open>str\<close>, \<open>char\<close> and \<open>fmt\<close> the program uses. A Rust string is
  its UTF-8 bytes, a HOL \<open>char\<close> is one byte, so a Rust \<open>str\<close> and an \<open>OsStr\<close> are
  both a HOL \<open>string\<close>; \<open>valid_utf8\<close> tells them apart. \<open>decode\<close> follows the standard
  library's lossy decoder: each piece is a scalar value with the bytes it came from, or a
  maximal malformed run, which \<open>to_string_lossy\<close> replaces by U+FFFD.
\<close>

abbreviation byte :: "char \<Rightarrow> nat" where
  "byte c \<equiv> of_char c"

abbreviation newline :: char where
  "newline \<equiv> CHR 0x0A"

abbreviation carriage_return :: char where
  "carriage_return \<equiv> CHR 0x0D"

subsection \<open>UTF-8\<close>

datatype utf8_piece = Scalar nat string | Malformed string

definition is_cont :: "nat \<Rightarrow> bool" where
  "is_cont b = (0x80 \<le> b \<and> b \<le> 0xBF)"

definition utf8_width :: "nat \<Rightarrow> nat" where
  "utf8_width b =
     (if b < 0x80 then 1
      else if 0xC2 \<le> b \<and> b \<le> 0xDF then 2
      else if 0xE0 \<le> b \<and> b \<le> 0xEF then 3
      else if 0xF0 \<le> b \<and> b \<le> 0xF4 then 4
      else 0)"

definition second_ok :: "nat \<Rightarrow> nat \<Rightarrow> bool" where
  "second_ok b0 b1 =
     (if b0 = 0xE0 then 0xA0 \<le> b1 \<and> b1 \<le> 0xBF
      else if b0 = 0xED then 0x80 \<le> b1 \<and> b1 \<le> 0x9F
      else if b0 = 0xF0 then 0x90 \<le> b1 \<and> b1 \<le> 0xBF
      else if b0 = 0xF4 then 0x80 \<le> b1 \<and> b1 \<le> 0x8F
      else is_cont b1)"

definition utf8_step :: "char \<Rightarrow> string \<Rightarrow> utf8_piece \<times> string" where
  "utf8_step c0 cs =
     (let b0 = byte c0; w = utf8_width b0 in
      if w = 1 then (Scalar b0 [c0], cs)
      else if w = 0 then (Malformed [c0], cs)
      else (case cs of
        [] \<Rightarrow> (Malformed [c0], [])
      | c1 # cs1 \<Rightarrow>
          if \<not> second_ok b0 (byte c1) then (Malformed [c0], cs)
          else if w = 2 then (Scalar (b0 mod 32 * 64 + byte c1 mod 64) [c0, c1], cs1)
          else (case cs1 of
            [] \<Rightarrow> (Malformed [c0, c1], [])
          | c2 # cs2 \<Rightarrow>
              if \<not> is_cont (byte c2) then (Malformed [c0, c1], cs1)
              else if w = 3 then
                (Scalar (b0 mod 16 * 4096 + byte c1 mod 64 * 64 + byte c2 mod 64) [c0, c1, c2], cs2)
              else (case cs2 of
                [] \<Rightarrow> (Malformed [c0, c1, c2], [])
              | c3 # cs3 \<Rightarrow>
                  if \<not> is_cont (byte c3) then (Malformed [c0, c1, c2], cs2)
                  else (Scalar (b0 mod 8 * 262144 + byte c1 mod 64 * 4096 + byte c2 mod 64 * 64
                                + byte c3 mod 64) [c0, c1, c2, c3], cs3)))))"

lemma utf8_step_shorter: "utf8_step c cs = (p, rest) \<Longrightarrow> length rest \<le> length cs"
  by (auto simp: utf8_step_def Let_def split: if_splits list.splits)

function decode :: "string \<Rightarrow> utf8_piece list" where
  "decode [] = []"
| "decode (c # cs) = (case utf8_step c cs of (p, rest) \<Rightarrow> p # decode rest)"
  by pat_completeness auto
termination
  by (relation "measure length") (auto dest: utf8_step_shorter [OF sym] simp: less_Suc_eq_le)

fun piece_bytes :: "utf8_piece \<Rightarrow> string" where
  "piece_bytes (Scalar _ bs) = bs"
| "piece_bytes (Malformed bs) = bs"

fun piece_char :: "utf8_piece \<Rightarrow> nat" where
  "piece_char (Scalar c _) = c"
| "piece_char (Malformed _) = 0xFFFD"

fun is_scalar :: "utf8_piece \<Rightarrow> bool" where
  "is_scalar (Scalar _ _) = True"
| "is_scalar (Malformed _) = False"

definition valid_utf8 :: "string \<Rightarrow> bool" where
  "valid_utf8 s = list_all is_scalar (decode s)"

definition chars :: "string \<Rightarrow> nat list" where
  "chars s = map piece_char (decode s)"

definition to_string_lossy :: "string \<Rightarrow> string" where
  "to_string_lossy s =
     concat (map (\<lambda>p. case p of Scalar _ bs \<Rightarrow> bs | Malformed _ \<Rightarrow> [CHR 0xEF, CHR 0xBF, CHR 0xBD])
               (decode s))"

text \<open>\<open>OsStr::to_str\<close>: the string itself where it is UTF-8.\<close>

definition to_str :: "string \<Rightarrow> string option" where
  "to_str s = (if valid_utf8 s then Some s else None)"

lemma utf8_step_bytes: "utf8_step c cs = (p, rest) \<Longrightarrow> piece_bytes p @ rest = c # cs"
  by (auto simp: utf8_step_def Let_def split: if_splits list.splits)

lemma decode_bytes: "concat (map piece_bytes (decode s)) = s"
  by (induction s rule: decode.induct) (auto split: prod.splits dest: utf8_step_bytes)

lemma to_string_lossy_valid:
  assumes "valid_utf8 s"
  shows "to_string_lossy s = s"
proof -
  have "concat (map (\<lambda>p. case p of Scalar _ bs \<Rightarrow> bs | Malformed _ \<Rightarrow> [CHR 0xEF, CHR 0xBF, CHR 0xBD]) ps)
      = concat (map piece_bytes ps)" if "list_all is_scalar ps" for ps
    using that by (induction ps) (auto split: utf8_piece.splits)
  then show ?thesis using assms by (simp add: to_string_lossy_def valid_utf8_def decode_bytes)
qed

subsection \<open>ASCII strings decode byte by byte\<close>

definition is_ascii :: "char \<Rightarrow> bool" where
  "is_ascii c = (byte c < 0x80)"

definition ascii :: "string \<Rightarrow> bool" where
  "ascii s = list_all is_ascii s"

lemma ascii_nil [simp]: "ascii []"
  and ascii_cons [simp]: "ascii (c # s) \<longleftrightarrow> is_ascii c \<and> ascii s"
  and ascii_append [simp]: "ascii (s @ t) \<longleftrightarrow> ascii s \<and> ascii t"
  by (simp_all add: ascii_def)

lemma utf8_step_ascii: "is_ascii c \<Longrightarrow> utf8_step c cs = (Scalar (byte c) [c], cs)"
  by (simp add: utf8_step_def is_ascii_def utf8_width_def)

lemma decode_ascii_append:
  "ascii s \<Longrightarrow> decode (s @ t) = map (\<lambda>c. Scalar (byte c) [c]) s @ decode t"
  by (induction s) (simp_all add: utf8_step_ascii)

lemma decode_ascii: "ascii s \<Longrightarrow> decode s = map (\<lambda>c. Scalar (byte c) [c]) s"
  using decode_ascii_append [of s "[]"] by simp

lemma chars_ascii: "ascii s \<Longrightarrow> chars s = map byte s"
  by (simp add: chars_def decode_ascii)

lemma valid_utf8_ascii: "ascii s \<Longrightarrow> valid_utf8 s"
  by (simp add: valid_utf8_def decode_ascii list_all_iff)

text \<open>An ASCII byte is never part of a longer sequence, so it is a character of its own.\<close>

lemma cont_not_ascii: "is_cont (byte c) \<Longrightarrow> \<not> is_ascii c"
  by (simp add: is_cont_def is_ascii_def)

lemma second_ok_not_ascii: "second_ok b (byte c) \<Longrightarrow> \<not> is_ascii c"
  by (auto simp: second_ok_def is_cont_def is_ascii_def split: if_splits)

lemma utf8_step_ascii_kept:
  assumes "utf8_step c cs = (p, rest)" "d \<in> set (c # cs)" "is_ascii d"
  shows "d \<in> set rest \<or> p = Scalar (byte d) [d]"
  using assms cont_not_ascii second_ok_not_ascii
  by (auto simp: utf8_step_def Let_def utf8_width_def is_ascii_def
      split: if_splits list.splits dest!: cont_not_ascii second_ok_not_ascii)

lemma ascii_byte_in_chars:
  "c \<in> set s \<Longrightarrow> is_ascii c \<Longrightarrow> byte c \<in> set (chars s)"
proof (induction s rule: decode.induct)
  case 1
  then show ?case by simp
next
  case (2 d cs)
  obtain p rest where step: "utf8_step d cs = (p, rest)" by fastforce
  then have eq: "chars (d # cs) = piece_char p # chars rest" by (simp add: chars_def)
  from utf8_step_ascii_kept [OF step "2.prems"] show ?case
  proof
    assume "c \<in> set rest"
    with "2.IH" [OF step [symmetric]] "2.prems" eq show ?thesis by simp
  next
    assume "p = Scalar (byte c) [c]"
    with eq show ?thesis by simp
  qed
qed

subsection \<open>Character classes\<close>

definition is_whitespace :: "nat \<Rightarrow> bool" where
  "is_whitespace c =
     ((9 \<le> c \<and> c \<le> 13) \<or> c = 0x20 \<or> c = 0x85 \<or> c = 0xA0 \<or> c = 0x1680
      \<or> (0x2000 \<le> c \<and> c \<le> 0x200A) \<or> c = 0x2028 \<or> c = 0x2029 \<or> c = 0x202F
      \<or> c = 0x205F \<or> c = 0x3000)"

text \<open>The bounds are large for numbers in unary; evaluation compares integers.\<close>

lemma is_whitespace_code [code]:
  "is_whitespace c =
     (let i = int c in
      (9 \<le> i \<and> i \<le> 13) \<or> i = 0x20 \<or> i = 0x85 \<or> i = 0xA0 \<or> i = 0x1680
      \<or> (0x2000 \<le> i \<and> i \<le> 0x200A) \<or> i = 0x2028 \<or> i = 0x2029 \<or> i = 0x202F
      \<or> i = 0x205F \<or> i = 0x3000)"
  by (simp add: is_whitespace_def Let_def)

definition is_control :: "nat \<Rightarrow> bool" where
  "is_control c = (c < 0x20 \<or> (0x7F \<le> c \<and> c \<le> 0x9F))"

definition is_ascii_alphanumeric :: "nat \<Rightarrow> bool" where
  "is_ascii_alphanumeric c =
     ((0x30 \<le> c \<and> c \<le> 0x39) \<or> (0x41 \<le> c \<and> c \<le> 0x5A) \<or> (0x61 \<le> c \<and> c \<le> 0x7A))"

fun piece_space :: "utf8_piece \<Rightarrow> bool" where
  "piece_space (Scalar c _) = is_whitespace c"
| "piece_space (Malformed _) = False"

subsection \<open>Trimming and splitting\<close>

definition trim :: "string \<Rightarrow> string" where
  "trim s = concat (map piece_bytes (strip_both piece_space (decode s)))"

definition trim_start :: "string \<Rightarrow> string" where
  "trim_start s = concat (map piece_bytes (dropWhile piece_space (decode s)))"

definition starts_with_whitespace :: "string \<Rightarrow> bool" where
  "starts_with_whitespace s = (case decode s of [] \<Rightarrow> False | p # _ \<Rightarrow> piece_space p)"

fun strip_prefix :: "string \<Rightarrow> string \<Rightarrow> string option" where
  "strip_prefix [] s = Some s"
| "strip_prefix (p # ps) [] = None"
| "strip_prefix (p # ps) (c # cs) = (if p = c then strip_prefix ps cs else None)"

text \<open>For evaluation: a \<open>case\<close> is decided before its branches are entered, which an \<open>if\<close> is not.\<close>

lemma strip_prefix_code [code]:
  "strip_prefix [] s = Some s"
  "strip_prefix (p # ps) [] = None"
  "strip_prefix (p # ps) (c # cs) = (case p = c of True \<Rightarrow> strip_prefix ps cs | False \<Rightarrow> None)"
  by simp_all

definition starts_with :: "string \<Rightarrow> string \<Rightarrow> bool" where
  "starts_with s p = (strip_prefix p s \<noteq> None)"

fun split_once :: "string \<Rightarrow> string \<Rightarrow> (string \<times> string) option" where
  "split_once pat [] = (if pat = [] then Some ([], []) else None)"
| "split_once pat (c # cs) =
     (case strip_prefix pat (c # cs) of
        Some rest \<Rightarrow> Some ([], rest)
      | None \<Rightarrow> (case split_once pat cs of
          None \<Rightarrow> None
        | Some (before, after) \<Rightarrow> Some (c # before, after)))"

text \<open>\<open>str::lines\<close>: a line ends at a newline, with one carriage return before it dropped; the
  last line may lack the newline, and then keeps a trailing carriage return.\<close>

definition strip_cr :: "string \<Rightarrow> string" where
  "strip_cr l = (if l \<noteq> [] \<and> last l = carriage_return then butlast l else l)"

function lines :: "string \<Rightarrow> string list" where
  "lines s =
     (if s = [] then []
      else (case dropWhile (\<lambda>c. c \<noteq> newline) s of
        [] \<Rightarrow> [s]
      | _ # rest \<Rightarrow> strip_cr (takeWhile (\<lambda>c. c \<noteq> newline) s) # lines rest))"
  by pat_completeness auto
termination
proof (relation "measure length", simp_all)
  fix s :: string and x rest
  assume "dropWhile (\<lambda>c. c \<noteq> newline) s = x # rest"
  then have "length (x # rest) \<le> length s" by (metis length_dropWhile_le)
  then show "length rest < length s" by simp
qed

declare lines.simps [simp del]

lemma lines_code [code]:
  "lines s =
     (case s of [] \<Rightarrow> []
      | _ \<Rightarrow> (case dropWhile (\<lambda>c. c \<noteq> newline) s of
          [] \<Rightarrow> [s]
        | _ # rest \<Rightarrow> strip_cr (takeWhile (\<lambda>c. c \<noteq> newline) s) # lines rest))"
  by (subst lines.simps) (simp split: list.splits)

text \<open>\<open>slice::join\<close> on strings.\<close>

fun join_with :: "string \<Rightarrow> string list \<Rightarrow> string" where
  "join_with sep [] = []"
| "join_with sep [x] = x"
| "join_with sep (x # y # zs) = x @ sep @ join_with sep (y # zs)"

text \<open>\<open>str::split\<close> at the bytes a predicate accepts.\<close>

fun split_where :: "(char \<Rightarrow> bool) \<Rightarrow> string \<Rightarrow> string list" where
  "split_where P [] = [[]]"
| "split_where P (c # cs) =
     (if P c then [] # split_where P cs
      else (case split_where P cs of [] \<Rightarrow> [[c]] | w # ws \<Rightarrow> (c # w) # ws))"

lemma lines_nil [simp]: "lines [] = []"
  by (simp add: lines.simps)

lemma lines_break:
  assumes "dropWhile (\<lambda>c. c \<noteq> newline) s = x # rest"
  shows "lines s = strip_cr (takeWhile (\<lambda>c. c \<noteq> newline) s) # lines rest"
proof -
  have "s \<noteq> []" using assms by auto
  then show ?thesis by (subst lines.simps) (simp only: assms if_False list.case)
qed

lemma lines_newline:
  assumes "newline \<notin> set l"
  shows "lines (l @ newline # rest) = strip_cr l # lines rest"
proof -
  have "\<forall>c\<in>set l. c \<noteq> newline" using assms by auto
  then have "takeWhile (\<lambda>c. c \<noteq> newline) (l @ newline # rest) = l"
    and "dropWhile (\<lambda>c. c \<noteq> newline) (l @ newline # rest) = newline # rest"
    by (rule takeWhile_dropWhile_append_stop; simp)+
  then show ?thesis by (metis lines_break)
qed

lemma lines_last:
  assumes "newline \<notin> set l"
  shows "lines l = (if l = [] then [] else [l])"
proof -
  have "dropWhile (\<lambda>c. c \<noteq> newline) l = []" using assms by auto
  then have "(case dropWhile (\<lambda>c. c \<noteq> newline) l of [] \<Rightarrow> [l] | _ # rest \<Rightarrow> f rest) = [l]" for f
    by (simp only: list.case)
  then show ?thesis by (metis lines.simps)
qed

lemma strip_cr_id: "carriage_return \<notin> set l \<Longrightarrow> strip_cr l = l"
  by (auto simp: strip_cr_def dest: last_in_set)

text \<open>A text made of lines with no line break in them is read back line by line.\<close>

definition plain_line :: "string \<Rightarrow> bool" where
  "plain_line l = (newline \<notin> set l \<and> carriage_return \<notin> set l)"

definition unlines :: "string list \<Rightarrow> string" where
  "unlines ls = concat (map (\<lambda>l. l @ [newline]) ls)"

lemma lines_unlines_append:
  "list_all plain_line ls \<Longrightarrow> lines (unlines ls @ t) = ls @ lines t"
  by (induction ls) (simp_all add: unlines_def plain_line_def lines_newline strip_cr_id)

lemma lines_unlines: "list_all plain_line ls \<Longrightarrow> lines (unlines ls) = ls"
  using lines_unlines_append [of ls "[]"] by simp

lemma strip_prefix_append [simp]: "strip_prefix p (p @ s) = Some s"
  by (induction p) simp_all

lemma strip_prefix_eq_Some: "strip_prefix p s = Some t \<longleftrightarrow> s = p @ t"
  by (induction p s rule: strip_prefix.induct) auto

lemma split_where_nonempty: "split_where P s \<noteq> []"
  by (induction s) (auto split: list.splits)

lemma split_where_free: "\<forall>c\<in>set s. \<not> P c \<Longrightarrow> split_where P s = [s]"
  by (induction s) auto

lemma split_where_append:
  "\<forall>c\<in>set s. \<not> P c \<Longrightarrow> P d \<Longrightarrow> split_where P (s @ d # t) = s # split_where P t"
  by (induction s) auto

lemma split_where_join_with:
  "xs \<noteq> [] \<Longrightarrow> P d \<Longrightarrow> \<forall>x\<in>set xs. \<forall>c\<in>set x. \<not> P c \<Longrightarrow> split_where P (join_with [d] xs) = xs"
  by (induction "[d]" xs rule: join_with.induct) (auto simp: split_where_free split_where_append)

text \<open>Trimming, where the ends are ASCII.\<close>

definition is_space_char :: "char \<Rightarrow> bool" where
  "is_space_char c = is_whitespace (byte c)"

lemma concat_singletons: "concat (map (\<lambda>c. [c]) s) = s"
  by (induction s) simp_all

lemma trim_ascii:
  assumes "ascii s"
  shows "trim s = strip_both is_space_char s"
proof -
  have "strip_both piece_space (decode s)
      = map (\<lambda>c. Scalar (byte c) [c]) (strip_both is_space_char s)"
    using assms
    by (simp add: decode_ascii strip_both_map comp_def is_space_char_def [abs_def])
  then show ?thesis by (simp add: trim_def comp_def concat_singletons)
qed

lemma starts_with_whitespace_ascii:
  "is_ascii c \<Longrightarrow> starts_with_whitespace (c # s) = is_space_char c"
  by (simp add: starts_with_whitespace_def utf8_step_ascii is_space_char_def)

subsection \<open>Numbers in a radix, as \<open>fmt\<close> writes and \<open>char::to_digit\<close> reads them\<close>

definition digit_char :: "nat \<Rightarrow> char" where
  "digit_char d = char_of (if d < 10 then 48 + d else 87 + d)"

function fmt_radix :: "nat \<Rightarrow> nat \<Rightarrow> string" where
  "fmt_radix b n =
     (if n < b \<or> b < 2 then [digit_char n] else fmt_radix b (n div b) @ [digit_char (n mod b)])"
  by pat_completeness auto
termination
  by (relation "measure snd") auto

declare fmt_radix.simps [simp del]

lemma fmt_radix_code [code]:
  "fmt_radix b n =
     (case n < b \<or> b < 2 of
        True \<Rightarrow> [digit_char n]
      | False \<Rightarrow> fmt_radix b (n div b) @ [digit_char (n mod b)])"
  by (subst fmt_radix.simps) simp

abbreviation fmt_dec :: "nat \<Rightarrow> string" where
  "fmt_dec \<equiv> fmt_radix 10"

abbreviation fmt_hex :: "nat \<Rightarrow> string" where
  "fmt_hex \<equiv> fmt_radix 16"

definition fmt_int :: "int \<Rightarrow> string" where
  "fmt_int i = (if i < 0 then CHR ''-'' # fmt_dec (nat (- i)) else fmt_dec (nat i))"

definition to_digit :: "nat \<Rightarrow> char \<Rightarrow> nat option" where
  "to_digit radix c =
     (let b = byte c;
          d = (if 48 \<le> b \<and> b \<le> 57 then Some (b - 48)
               else if 97 \<le> b \<and> b \<le> 122 then Some (b - 87)
               else if 65 \<le> b \<and> b \<le> 90 then Some (b - 55)
               else None)
      in case d of Some v \<Rightarrow> if v < radix then Some v else None | None \<Rightarrow> None)"

lemma byte_digit_char: "d < 36 \<Longrightarrow> byte (digit_char d) = (if d < 10 then 48 + d else 87 + d)"
  by (simp add: digit_char_def)

lemma to_digit_digit_char: "d < radix \<Longrightarrow> radix \<le> 36 \<Longrightarrow> to_digit radix (digit_char d) = Some d"
  by (auto simp: to_digit_def byte_digit_char Let_def)

lemma fmt_radix_nonempty [simp]: "fmt_radix b n \<noteq> []"
  by (subst fmt_radix.simps) simp

text \<open>Every character written is a digit of the radix.\<close>

lemma fmt_radix_digits:
  assumes "2 \<le> b" "c \<in> set (fmt_radix b n)"
  shows "\<exists>d<b. c = digit_char d"
  using assms
proof (induction b n rule: fmt_radix.induct)
  case (1 b n)
  show ?case
  proof (cases "n < b")
    case True
    with "1.prems" show ?thesis by (auto simp: fmt_radix.simps [of b n])
  next
    case False
    with "1.prems" have "c \<in> set (fmt_radix b (n div b)) \<or> c = digit_char (n mod b)"
      by (auto simp: fmt_radix.simps [of b n])
    then show ?thesis
    proof
      assume "c \<in> set (fmt_radix b (n div b))"
      with "1.IH" "1.prems"(1) False show ?thesis by simp
    next
      assume "c = digit_char (n mod b)"
      with "1.prems"(1) show ?thesis by (intro exI [of _ "n mod b"]) simp
    qed
  qed
qed

text \<open>What the digits mean, read from the left.\<close>

definition digits_value :: "nat \<Rightarrow> nat \<Rightarrow> string \<Rightarrow> nat" where
  "digits_value b acc s = foldl (\<lambda>a c. a * b + the (to_digit b c)) acc s"

lemma digits_value_append:
  "digits_value b acc (s @ [c]) = digits_value b acc s * b + the (to_digit b c)"
  by (simp add: digits_value_def)

lemma digits_value_fmt_radix:
  assumes "2 \<le> b" "b \<le> 36"
  shows "digits_value b 0 (fmt_radix b n) = n"
  using assms
proof (induction b n rule: fmt_radix.induct)
  case (1 b n)
  show ?case
  proof (cases "n < b")
    case True
    with "1.prems" show ?thesis
      by (simp add: fmt_radix.simps [of b n] digits_value_def to_digit_digit_char)
  next
    case False
    with "1" have "digits_value b 0 (fmt_radix b (n div b)) = n div b" by simp
    with False "1.prems" show ?thesis
      by (simp add: fmt_radix.simps [of b n] digits_value_append to_digit_digit_char)
  qed
qed

lemma length_fmt_radix:
  assumes "2 \<le> b" "n < b ^ k" "0 < k"
  shows "length (fmt_radix b n) \<le> k"
  using assms
proof (induction b n arbitrary: k rule: fmt_radix.induct)
  case (1 b n)
  show ?case
  proof (cases "n < b")
    case True
    with "1.prems" show ?thesis by (simp add: fmt_radix.simps [of b n])
  next
    case False
    obtain j where k: "k = Suc j" using "1.prems" by (cases k) auto
    have "0 < j" using "1.prems" False k by (cases j) auto
    note k = k this
    with "1.prems" have "n div b < b ^ j" by (simp add: div_less_iff_less_mult mult.commute)
    with "1" False k have "length (fmt_radix b (n div b)) \<le> j" by simp
    with False k "1.prems" show ?thesis by (simp add: fmt_radix.simps [of b n])
  qed
qed

text \<open>A number has no superfluous leading zero.\<close>

lemma hd_fmt_radix:
  assumes "2 \<le> b" "b \<le> 36" "hd (fmt_radix b n) = digit_char 0"
  shows "length (fmt_radix b n) = 1"
  using assms
proof (induction b n rule: fmt_radix.induct)
  case (1 b n)
  show ?case
  proof (cases "n < b")
    case True
    with "1.prems" show ?thesis by (simp add: fmt_radix.simps [of b n])
  next
    case False
    let ?m = "n div b"
    from False "1.prems" have "0 < ?m" by (simp add: div_greater_zero_iff)
    from False "1.prems" have "hd (fmt_radix b ?m) = digit_char 0"
      by (simp add: fmt_radix.simps [of b n])
    with "1" False have "length (fmt_radix b ?m) = 1" by simp
    moreover have "digits_value b 0 (fmt_radix b ?m) = ?m"
      using "1.prems" by (simp add: digits_value_fmt_radix)
    ultimately have "?m = 0"
      using \<open>hd (fmt_radix b ?m) = digit_char 0\<close> "1.prems"
      by (cases "fmt_radix b ?m") (auto simp: digits_value_def to_digit_digit_char)
    with \<open>0 < ?m\<close> show ?thesis by simp
  qed
qed

subsection \<open>Values with a printed form\<close>

text \<open>
  The interfaces between the code that writes values (addresses in an environment variable or a
  \<open>resolv.conf\<close>, the digest beside the archive, the process id in a name) and the code that reads
  them back. A \<open>rendered\<close> value is read back as itself; a \<open>solid\<close> one moreover is ASCII without
  white space, so that trimming leaves it alone; a \<open>printed\<close> one is not empty either, so that it
  can be padded, joined and split.
\<close>

locale rendered =
  fixes show_value :: "'a \<Rightarrow> string"
    and parse_value :: "string \<Rightarrow> 'a option"
  assumes parse_show: "parse_value (show_value x) = Some x"
begin

lemma show_inject: "show_value x = show_value y \<longleftrightarrow> x = y"
  by (metis option.inject parse_show)

end

locale solid = rendered show_value parse_value
  for show_value :: "'a \<Rightarrow> string" and parse_value :: "string \<Rightarrow> 'a option" +
  assumes show_ascii: "ascii (show_value x)"
    and show_solid: "c \<in> set (show_value x) \<Longrightarrow> \<not> is_space_char c"
begin

lemma show_free: "is_space_char c \<Longrightarrow> c \<notin> set (show_value x)"
  using show_solid by blast

lemma trim_shown: "trim (show_value x) = show_value x"
proof (cases "show_value x = []")
  case False
  then have "\<not> is_space_char (hd (show_value x))" "\<not> is_space_char (last (show_value x))"
    using show_solid by (meson hd_in_set last_in_set)+
  with False show ?thesis by (simp add: trim_ascii show_ascii strip_both_id)
qed (simp add: trim_ascii)

lemma parse_trimmed: "parse_value (trim (show_value x)) = Some x"
  by (simp add: trim_shown parse_show)

lemma show_plain_line: "plain_line (show_value x)"
  by (simp add: plain_line_def show_free is_space_char_def is_whitespace_def)

end

locale printed = solid +
  assumes show_nonempty: "show_value x \<noteq> []"
begin

lemma show_ends: "\<not> is_space_char (hd (show_value x))" "\<not> is_space_char (last (show_value x))"
  using show_solid [OF hd_in_set [OF show_nonempty]] show_solid [OF last_in_set [OF show_nonempty]]
  by simp_all

lemma trim_padded:
  assumes "ascii us" "ascii vs" "\<forall>c\<in>set us. is_space_char c" "\<forall>c\<in>set vs. is_space_char c"
  shows "trim (us @ show_value x @ vs) = show_value x"
  using assms show_nonempty show_ascii show_ends
  by (simp add: trim_ascii strip_both_pad)

lemma parse_padded:
  assumes "ascii us" "ascii vs" "\<forall>c\<in>set us. is_space_char c" "\<forall>c\<in>set vs. is_space_char c"
  shows "parse_value (trim (us @ show_value x @ vs)) = Some x"
  using trim_padded [OF assms] by (simp add: parse_show)

lemma split_joined:
  assumes "xs \<noteq> []" "P d" "\<And>c. P c \<Longrightarrow> is_space_char c"
  shows "split_where P (join_with [d] (map show_value xs)) = map show_value xs"
  using assms show_solid by (intro split_where_join_with) auto

lemma joined_nonempty: "xs \<noteq> [] \<Longrightarrow> join_with [d] (map show_value xs) \<noteq> []"
  by (cases xs rule: remdups_adj.cases) (simp_all add: show_nonempty)

end

text \<open>Numbers in decimal meet it.\<close>

lemma fmt_dec_char: "c \<in> set (fmt_dec n) \<Longrightarrow> 48 \<le> byte c \<and> byte c \<le> 57"
  using fmt_radix_digits [of 10 c n] by (auto simp: byte_digit_char)

interpretation dec: printed fmt_dec "\<lambda>s. Some (digits_value 10 0 s)"
proof unfold_locales
  fix n :: nat and c :: char
  show "ascii (fmt_dec n)" using fmt_dec_char by (fastforce simp: ascii_def list_all_iff is_ascii_def)
  show "c \<in> set (fmt_dec n) \<Longrightarrow> \<not> is_space_char c"
    using fmt_dec_char [of c n] by (auto simp: is_space_char_def is_whitespace_def)
qed (simp_all add: digits_value_fmt_radix)

subsection \<open>Texts read line by line\<close>

text \<open>
  The interface between a configuration text and its reader: every well-formed line is written
  without a line break and is read as what it means, which may be nothing. The readers of a
  \<open>resolv.conf\<close> and of what \<open>scutil\<close> prints are such; what holds of whole texts is proved here.
\<close>

locale line_format =
  fixes render :: "'l \<Rightarrow> string"
    and wf :: "'l \<Rightarrow> bool"
    and meaning :: "'l \<Rightarrow> 'a option"
    and read_line :: "string \<Rightarrow> 'a option"
  assumes read_render: "wf l \<Longrightarrow> read_line (render l) = meaning l"
    and render_plain: "wf l \<Longrightarrow> plain_line (render l)"
begin

lemma read_text:
  assumes "list_all wf ls"
  shows "List.map_filter read_line (lines (unlines (map render ls))) = List.map_filter meaning ls"
proof -
  have "list_all plain_line (map render ls)" using assms by (auto simp: list_all_iff render_plain)
  then show ?thesis
    using assms
    by (simp add: lines_unlines)
      (induction ls; simp add: List.map_filter_simps read_render split: option.split)
qed

lemma read_values:
  assumes "\<And>x. wf (line_of x)" "\<And>x. meaning (line_of x) = Some x"
  shows "List.map_filter read_line (lines (unlines (map (\<lambda>x. render (line_of x)) xs))) = xs"
proof -
  have "List.map_filter meaning (map line_of xs) = xs"
    by (induction xs) (simp_all add: List.map_filter_simps assms(2))
  then show ?thesis using read_text [of "map line_of xs"] assms(1) by (simp add: list_all_iff o_def)
qed

end

end
