(* ===== verification/Net.thy ===== *)
theory Net
  imports Text "HOL-Library.Word"
begin

unbundle bit_operations_syntax

text \<open>
  The addresses of \<open>std::net\<close>: the octets of an \<open>Ipv4Addr\<close>, the segments of an
  \<open>Ipv6Addr\<close>, the classification methods \<open>dns.rs\<close> calls, and \<open>Display\<close> as
  \<open>core::net\<close> writes it, with the compression of the longest run of zero segments and the
  dotted form of an IPv4-mapped address.
\<close>

type_synonym u8 = "8 word"
type_synonym u16 = "16 word"
type_synonym u32 = "32 word"

datatype ip_addr =
    V4 u8 u8 u8 u8
  | V6 u16 u16 u16 u16 u16 u16 u16 u16

fun segments :: "ip_addr \<Rightarrow> u16 list" where
  "segments (V4 _ _ _ _) = []"
| "segments (V6 a b c d e f g h) = [a, b, c, d, e, f, g, h]"

definition v6_of :: "u16 list \<Rightarrow> ip_addr" where
  "v6_of gs = V6 (gs ! 0) (gs ! 1) (gs ! 2) (gs ! 3) (gs ! 4) (gs ! 5) (gs ! 6) (gs ! 7)"

lemma v6_of_segments [simp]: "v6_of [a, b, c, d, e, f, g, h] = V6 a b c d e f g h"
  by (simp add: v6_of_def numeral_eq_Suc)

subsection \<open>Classification\<close>

fun is_loopback :: "ip_addr \<Rightarrow> bool" where
  "is_loopback (V4 a _ _ _) = (a = 127)"
| "is_loopback (V6 a b c d e f g h) = ([a, b, c, d, e, f, g, h] = [0, 0, 0, 0, 0, 0, 0, 1])"

fun is_unspecified :: "ip_addr \<Rightarrow> bool" where
  "is_unspecified (V4 a b c d) = ([a, b, c, d] = [0, 0, 0, 0])"
| "is_unspecified (V6 a b c d e f g h) = ([a, b, c, d, e, f, g, h] = [0, 0, 0, 0, 0, 0, 0, 0])"

fun is_multicast :: "ip_addr \<Rightarrow> bool" where
  "is_multicast (V4 a _ _ _) = (224 \<le> a \<and> a \<le> 239)"
| "is_multicast (V6 a _ _ _ _ _ _ _) = (a AND 0xff00 = 0xff00)"

fun is_link_local_v4 :: "ip_addr \<Rightarrow> bool" where
  "is_link_local_v4 (V4 a b _ _) = (a = 169 \<and> b = 254)"
| "is_link_local_v4 (V6 _ _ _ _ _ _ _ _) = False"

fun is_broadcast_v4 :: "ip_addr \<Rightarrow> bool" where
  "is_broadcast_v4 (V4 a b c d) = ([a, b, c, d] = [255, 255, 255, 255])"
| "is_broadcast_v4 (V6 _ _ _ _ _ _ _ _) = False"

subsection \<open>Bytes of a segment\<close>

definition be16 :: "u8 \<Rightarrow> u8 \<Rightarrow> u16" where
  "be16 hi lo = of_nat (unat hi * 256 + unat lo)"

definition hi8 :: "u16 \<Rightarrow> u8" where
  "hi8 x = of_nat (unat x div 256)"

definition lo8 :: "u16 \<Rightarrow> u8" where
  "lo8 x = of_nat (unat x mod 256)"

lemma unat_u8_bound: "unat (a :: u8) < 256"
  using unsigned_less [of a, where 'a = nat] by simp

lemma unat_u16_bound: "unat (a :: u16) < 65536"
  using unsigned_less [of a, where 'a = nat] by simp

lemma unat_hi8: "unat (hi8 x) = unat x div 256"
  using unat_u16_bound [of x] by (simp add: hi8_def unat_of_nat)

lemma unat_lo8: "unat (lo8 x) = unat x mod 256"
  by (simp add: lo8_def unat_of_nat)

lemma be16_hi8_lo8 [simp]: "be16 (hi8 x) (lo8 x) = x"
  by (simp add: be16_def unat_hi8 unat_lo8)

subsection \<open>Display\<close>

definition fmt_v4 :: "u8 \<Rightarrow> u8 \<Rightarrow> u8 \<Rightarrow> u8 \<Rightarrow> string" where
  "fmt_v4 a b c d =
     fmt_dec (unat a) @ ''.'' @ fmt_dec (unat b) @ ''.'' @ fmt_dec (unat c) @ ''.'' @ fmt_dec (unat d)"

fun to_ipv4_mapped :: "u16 list \<Rightarrow> (u8 \<times> u8 \<times> u8 \<times> u8) option" where
  "to_ipv4_mapped [a, b, c, d, e, f, g, h] =
     (if [a, b, c, d, e, f] = [0, 0, 0, 0, 0, 0xffff] then Some (hi8 g, lo8 g, hi8 h, lo8 h) else None)"
| "to_ipv4_mapped _ = None"

record span =
  span_start :: nat
  span_len :: nat

definition no_span :: span where
  "no_span = \<lparr>span_start = 0, span_len = 0\<rparr>"

definition extend_span :: "nat \<Rightarrow> span \<Rightarrow> span" where
  "extend_span i current =
     \<lparr>span_start = (if span_len current = 0 then i else span_start current),
      span_len = span_len current + 1\<rparr>"

fun longest_zeros :: "nat \<Rightarrow> span \<Rightarrow> span \<Rightarrow> u16 list \<Rightarrow> span" where
  "longest_zeros i longest current [] = longest"
| "longest_zeros i longest current (s # ss) =
     (if s = 0 then
        let current' = extend_span i current
        in longest_zeros (Suc i)
             (if span_len longest < span_len current' then current' else longest) current' ss
      else longest_zeros (Suc i) longest no_span ss)"

definition fmt_subslice :: "u16 list \<Rightarrow> string" where
  "fmt_subslice chunk = join_with '':'' (map (\<lambda>g. fmt_hex (unat g)) chunk)"

definition fmt_v6 :: "u16 list \<Rightarrow> string" where
  "fmt_v6 segs =
     (case to_ipv4_mapped segs of
        Some (a, b, c, d) \<Rightarrow> ''::ffff:'' @ fmt_v4 a b c d
      | None \<Rightarrow>
          let zeroes = longest_zeros 0 no_span no_span segs in
          if 1 < span_len zeroes then
            fmt_subslice (take (span_start zeroes) segs) @ ''::''
            @ fmt_subslice (drop (span_start zeroes + span_len zeroes) segs)
          else fmt_subslice segs)"

fun ip_to_string :: "ip_addr \<Rightarrow> string" where
  "ip_to_string (V4 a b c d) = fmt_v4 a b c d"
| "ip_to_string (V6 a b c d e f g h) = fmt_v6 [a, b, c, d, e, f, g, h]"

text \<open>The span found is a run of zero segments inside the address.\<close>

definition zero_span :: "u16 list \<Rightarrow> span \<Rightarrow> bool" where
  "zero_span segs z =
     (span_len z = 0 \<or>
      span_start z + span_len z \<le> length segs \<and>
      (\<forall>j. span_start z \<le> j \<and> j < span_start z + span_len z \<longrightarrow> segs ! j = 0))"

lemma zero_span_no_span [simp]: "zero_span segs no_span"
  by (simp add: zero_span_def no_span_def)

lemma span_len_no_span [simp]: "span_len no_span = 0"
  by (simp add: no_span_def)

lemma zero_span_append: "zero_span segs z \<Longrightarrow> zero_span (segs @ ts) z"
  by (auto simp: zero_span_def nth_append)

lemma longest_zeros_span:
  assumes "zero_span pre longest" "zero_span pre current"
    and "span_len current = 0 \<or> span_start current + span_len current = length pre"
  shows "zero_span (pre @ ss) (longest_zeros (length pre) longest current ss)"
  using assms
proof (induction ss arbitrary: pre longest current)
  case Nil
  then show ?case by simp
next
  case (Cons s ss)
  show ?case
  proof (cases "s = 0")
    case False
    with Cons.IH [of "pre @ [s]" longest no_span] Cons.prems show ?thesis
      by (simp add: zero_span_append)
  next
    case True
    let ?c = "extend_span (length pre) current"
    have "zero_span (pre @ [s]) ?c" and "span_start ?c + span_len ?c = length (pre @ [s])"
      using Cons.prems True by (auto simp: zero_span_def extend_span_def nth_append less_Suc_eq)
    moreover have "zero_span (pre @ [s]) longest"
      using Cons.prems by (simp add: zero_span_append)
    ultimately show ?thesis
      using True Cons.IH [of "pre @ [s]" "if span_len longest < span_len ?c then ?c else longest" ?c]
      by (simp add: Let_def split: if_splits)
  qed
qed

lemma longest_zeros_zero: "zero_span segs (longest_zeros 0 no_span no_span segs)"
  using longest_zeros_span [of "[]" no_span no_span segs] by simp

text \<open>A zero run splits the segments in three.\<close>

lemma zero_span_split:
  assumes "zero_span segs z"
  shows "segs = take (span_start z) segs @ replicate (span_len z) 0
            @ drop (span_start z + span_len z) segs"
proof (cases "span_len z = 0")
  case False
  with assms have le: "span_start z + span_len z \<le> length segs"
    and zero: "\<And>j. span_start z \<le> j \<Longrightarrow> j < span_start z + span_len z \<Longrightarrow> segs ! j = 0"
    by (auto simp: zero_span_def)
  have "take (span_len z) (drop (span_start z) segs) = replicate (span_len z) 0"
    using le zero by (intro nth_equalityI) auto
  then show ?thesis
    by (metis append_take_drop_id drop_drop add.commute)
qed simp

subsection \<open>What the printed form is made of\<close>

definition addr_char :: "char \<Rightarrow> bool" where
  "addr_char c = (to_digit 16 c \<noteq> None \<or> c = CHR ''.'' \<or> c = CHR '':'')"

lemma fmt_radix_addr_char:
  assumes "2 \<le> b" "b \<le> 16"
  shows "list_all addr_char (fmt_radix b n)"
  unfolding list_all_iff
proof
  fix c assume "c \<in> set (fmt_radix b n)"
  then obtain d where "d < b" "c = digit_char d" using fmt_radix_digits assms(1) by blast
  with assms(2) show "addr_char c" by (simp add: addr_char_def to_digit_digit_char)
qed

lemma join_with_all:
  "list_all P sep \<Longrightarrow> \<forall>x\<in>set xs. list_all P x \<Longrightarrow> list_all P (join_with sep xs)"
  by (induction sep xs rule: join_with.induct) auto

lemma addr_char_sep [simp]: "addr_char (CHR ''.'')" "addr_char (CHR '':'')"
  by (simp_all add: addr_char_def)

lemma fmt_v4_addr_char: "list_all addr_char (fmt_v4 a b c d)"
  by (simp add: fmt_v4_def fmt_radix_addr_char)

lemma fmt_subslice_addr_char: "list_all addr_char (fmt_subslice gs)"
  by (auto simp: fmt_subslice_def fmt_radix_addr_char intro!: join_with_all)

lemma addr_char_f [simp]: "addr_char (CHR ''f'')"
  by (simp add: addr_char_def to_digit_def Let_def)

lemma fmt_v6_addr_char: "list_all addr_char (fmt_v6 segs)"
  by (auto simp: fmt_v6_def Let_def fmt_v4_addr_char fmt_subslice_addr_char split: option.splits)

lemma ip_to_string_addr_char: "list_all addr_char (ip_to_string ip)"
  by (cases ip) (simp_all add: fmt_v4_addr_char fmt_v6_addr_char del: list_all_iff)

lemma addr_char_ascii: "addr_char c \<Longrightarrow> is_ascii c"
  by (auto simp: addr_char_def to_digit_def is_ascii_def Let_def split: if_splits)

lemma addr_char_not_space: "addr_char c \<Longrightarrow> \<not> is_space_char c"
  by (auto simp: addr_char_def to_digit_def is_space_char_def is_whitespace_def Let_def split: if_splits)

lemma ip_to_string_ascii: "ascii (ip_to_string ip)"
  using ip_to_string_addr_char [of ip] by (auto simp: ascii_def list_all_iff addr_char_ascii)

lemma ip_to_string_free:
  "\<not> addr_char c \<Longrightarrow> c \<notin> set (ip_to_string ip)"
  using ip_to_string_addr_char [of ip] by (auto simp: list_all_iff)

lemma fmt_v4_nonempty [simp]: "fmt_v4 a b c d \<noteq> []"
  by (simp add: fmt_v4_def)

lemma fmt_subslice_nonempty: "gs \<noteq> [] \<Longrightarrow> fmt_subslice gs \<noteq> []"
  by (cases gs rule: remdups_adj.cases) (simp_all add: fmt_subslice_def)

lemma fmt_v6_nonempty: "segs \<noteq> [] \<Longrightarrow> fmt_v6 segs \<noteq> []"
  by (auto simp: fmt_v6_def Let_def fmt_subslice_nonempty split: option.splits)

lemma ip_to_string_nonempty [simp]: "ip_to_string ip \<noteq> []"
  by (cases ip) (simp_all only: ip_to_string.simps, simp_all add: fmt_v6_nonempty)

end
