(* ===== verification/NetParse.thy ===== *)
theory NetParse
  imports Net
begin

text \<open>
  \<open>str::parse::<IpAddr>\<close> as \<open>core::net::parser\<close> does it: a parser takes the bytes left
  and returns a value with the bytes after it; \<open>None\<close> leaves the input where it was, as
  \<open>read_atomically\<close> does. The theory ends with the round trip through \<open>Display\<close>.
\<close>

subsection \<open>The parser\<close>

definition read_given_char :: "char \<Rightarrow> string \<Rightarrow> string option" where
  "read_given_char c s = (case s of [] \<Rightarrow> None | d # ds \<Rightarrow> if d = c then Some ds else None)"

definition read_separator ::
  "char \<Rightarrow> nat \<Rightarrow> (string \<Rightarrow> ('a \<times> string) option) \<Rightarrow> string \<Rightarrow> ('a \<times> string) option" where
  "read_separator sep index inner s =
     (if 0 < index then (case read_given_char sep s of None \<Rightarrow> None | Some s' \<Rightarrow> inner s') else inner s)"

fun read_digits :: "nat \<Rightarrow> nat \<Rightarrow> nat \<Rightarrow> nat \<Rightarrow> string \<Rightarrow> (nat \<times> nat \<times> string) option" where
  "read_digits radix max_digits count result [] = Some (result, count, [])"
| "read_digits radix max_digits count result (c # cs) =
     (case to_digit radix c of
        None \<Rightarrow> Some (result, count, c # cs)
      | Some d \<Rightarrow>
          if max_digits < count + 1 then None
          else read_digits radix max_digits (count + 1) (result * radix + d) cs)"

definition read_number ::
  "nat \<Rightarrow> nat \<Rightarrow> bool \<Rightarrow> nat \<Rightarrow> string \<Rightarrow> (nat \<times> string) option" where
  "read_number radix max_digits allow_zero_prefix max_value s =
     (case read_digits radix max_digits 0 0 s of
        None \<Rightarrow> None
      | Some (result, digit_count, rest) \<Rightarrow>
          if digit_count = 0 then None
          else if \<not> allow_zero_prefix \<and> hd s = CHR ''0'' \<and> 1 < digit_count then None
          else if result \<le> max_value then Some (result, rest) else None)"

fun read_octets :: "nat \<Rightarrow> nat \<Rightarrow> string \<Rightarrow> (nat list \<times> string) option" where
  "read_octets i 0 s = Some ([], s)"
| "read_octets i (Suc k) s =
     (case read_separator CHR ''.'' i (read_number 10 3 False 255) s of
        None \<Rightarrow> None
      | Some (v, s1) \<Rightarrow>
          (case read_octets (Suc i) k s1 of
             None \<Rightarrow> None
           | Some (vs, s2) \<Rightarrow> Some (v # vs, s2)))"

definition read_ipv4_addr :: "string \<Rightarrow> ((u8 \<times> u8 \<times> u8 \<times> u8) \<times> string) option" where
  "read_ipv4_addr s =
     (case read_octets 0 4 s of
        None \<Rightarrow> None
      | Some (vs, rest) \<Rightarrow>
          Some ((of_nat (vs ! 0), of_nat (vs ! 1), of_nat (vs ! 2), of_nat (vs ! 3)), rest))"

function read_groups :: "nat \<Rightarrow> nat \<Rightarrow> string \<Rightarrow> (u16 list \<times> bool) \<times> string" where
  "read_groups limit i s =
     (if limit \<le> i then (([], False), s)
      else (case (if i + 1 < limit then read_separator CHR '':'' i read_ipv4_addr s else None) of
        Some ((a, b, c, d), s1) \<Rightarrow> (([be16 a b, be16 c d], True), s1)
      | None \<Rightarrow>
          (case read_separator CHR '':'' i (read_number 16 4 True 65535) s of
             None \<Rightarrow> (([], False), s)
           | Some (g, s1) \<Rightarrow>
               (case read_groups limit (Suc i) s1 of
                  ((gs, v4), s2) \<Rightarrow> ((of_nat g # gs, v4), s2)))))"
  by pat_completeness auto
termination
  by (relation "measure (\<lambda>(limit, i, s). limit - i)") auto

declare read_groups.simps [simp del]

lemma read_groups_code [code]:
  "read_groups limit i s =
     (case limit \<le> i of
        True \<Rightarrow> (([], False), s)
      | False \<Rightarrow>
          (case (if i + 1 < limit then read_separator CHR '':'' i read_ipv4_addr s else None) of
             Some ((a, b, c, d), s1) \<Rightarrow> (([be16 a b, be16 c d], True), s1)
           | None \<Rightarrow>
               (case read_separator CHR '':'' i (read_number 16 4 True 65535) s of
                  None \<Rightarrow> (([], False), s)
                | Some (g, s1) \<Rightarrow>
                    (case read_groups limit (Suc i) s1 of
                       ((gs, v4), s2) \<Rightarrow> ((of_nat g # gs, v4), s2)))))"
  by (subst read_groups.simps) simp

definition read_ipv6_addr :: "string \<Rightarrow> (ip_addr \<times> string) option" where
  "read_ipv6_addr s =
     (case read_groups 8 0 s of
        ((head, head_ipv4), s1) \<Rightarrow>
          if length head = 8 then Some (v6_of head, s1)
          else if head_ipv4 then None
          else (case read_given_char CHR '':'' s1 of
            None \<Rightarrow> None
          | Some s2 \<Rightarrow> (case read_given_char CHR '':'' s2 of
              None \<Rightarrow> None
            | Some s3 \<Rightarrow>
                (case read_groups (8 - (length head + 1)) 0 s3 of
                  ((tail, _), s4) \<Rightarrow>
                    Some (v6_of (head @ replicate (8 - length head - length tail) 0 @ tail), s4)))))"

definition read_ip_addr :: "string \<Rightarrow> (ip_addr \<times> string) option" where
  "read_ip_addr s =
     (case read_ipv4_addr s of
        Some ((a, b, c, d), rest) \<Rightarrow> Some (V4 a b c d, rest)
      | None \<Rightarrow> read_ipv6_addr s)"

definition parse_ip :: "string \<Rightarrow> ip_addr option" where
  "parse_ip s =
     (case read_ip_addr s of
        Some (ip, []) \<Rightarrow> Some ip
      | _ \<Rightarrow> None)"

subsection \<open>Reading back a number\<close>

definition no_digit :: "nat \<Rightarrow> string \<Rightarrow> bool" where
  "no_digit radix r = (r = [] \<or> to_digit radix (hd r) = None)"

lemma read_digits_stop:
  assumes "\<forall>c\<in>set ds. to_digit radix c \<noteq> None" "no_digit radix r"
    and "count + length ds \<le> max_digits"
  shows "read_digits radix max_digits count acc (ds @ r) =
           Some (digits_value radix acc ds, count + length ds, r)"
  using assms
proof (induction ds arbitrary: count acc)
  case Nil
  then show ?case by (cases r) (auto simp: no_digit_def digits_value_def)
next
  case (Cons d ds)
  then show ?case by (auto simp: digits_value_def)
qed

lemma read_digits_rest:
  "read_digits radix m n acc s = Some (v, k, rest) \<Longrightarrow>
     rest = dropWhile (\<lambda>c. to_digit radix c \<noteq> None) s"
  by (induction radix m n acc s rule: read_digits.induct) (auto split: option.splits if_splits)

lemma read_number_fmt_radix:
  assumes "2 \<le> radix" "radix \<le> 36" "n \<le> bound" "length (fmt_radix radix n) \<le> m" "no_digit radix r"
  shows "read_number radix m allow bound (fmt_radix radix n @ r) = Some (n, r)"
proof -
  have "\<forall>c\<in>set (fmt_radix radix n). to_digit radix c \<noteq> None"
    using fmt_radix_digits assms(1,2) by (metis option.distinct(1) to_digit_digit_char)
  then have "read_digits radix m 0 0 (fmt_radix radix n @ r) =
      Some (n, length (fmt_radix radix n), r)"
    using read_digits_stop [of "fmt_radix radix n" radix r 0 m 0] assms
    by (simp add: digits_value_fmt_radix)
  moreover have "digit_char 0 = CHR ''0''" by code_simp
  ultimately show ?thesis
    using assms hd_fmt_radix [of radix n] by (auto simp: read_number_def hd_append)
qed

lemma read_octet:
  "no_digit 10 r \<Longrightarrow> read_number 10 3 False 255 (fmt_dec (unat (a :: u8)) @ r) = Some (unat a, r)"
  using unat_u8_bound [of a] length_fmt_radix [of 10 "unat a" 3]
  by (intro read_number_fmt_radix) auto

lemma read_group:
  "no_digit 16 r \<Longrightarrow> read_number 16 4 True 65535 (fmt_hex (unat (g :: u16)) @ r) = Some (unat g, r)"
  using unat_u16_bound [of g] length_fmt_radix [of 16 "unat g" 4]
  by (intro read_number_fmt_radix) auto

lemma no_digit_simps [simp]:
  "no_digit radix []"
  "radix \<le> 16 \<Longrightarrow> no_digit radix (CHR ''.'' # r)"
  "radix \<le> 16 \<Longrightarrow> no_digit radix (CHR '':'' # r)"
  by (simp_all add: no_digit_def to_digit_def)

lemma four_octets: "read_octets 0 4 = read_octets 0 (Suc (Suc (Suc (Suc 0))))"
  by (simp add: eval_nat_numeral)

lemma read_ipv4_addr_fmt:
  assumes "no_digit 10 r"
  shows "read_ipv4_addr (fmt_v4 a b c d @ r) = Some ((a, b, c, d), r)"
  using assms
  by (simp add: read_ipv4_addr_def four_octets fmt_v4_def read_separator_def read_given_char_def
      read_octet)

text \<open>A hexadecimal group that is not followed by a dot starts no IPv4 address.\<close>

lemma read_ipv4_addr_dot:
  assumes "read_ipv4_addr s \<noteq> None"
  shows "\<exists>t. dropWhile (\<lambda>c. to_digit 10 c \<noteq> None) s = CHR ''.'' # t"
proof -
  from assms obtain v s1 where n: "read_number 10 3 False 255 s = Some (v, s1)"
    and more: "read_separator CHR ''.'' (Suc 0) (read_number 10 3 False 255) s1 \<noteq> None"
    by (auto simp: read_ipv4_addr_def four_octets read_separator_def [of _ 0] split: option.splits)
  from n have "s1 = dropWhile (\<lambda>c. to_digit 10 c \<noteq> None) s"
    by (auto simp: read_number_def split: option.splits if_splits dest: read_digits_rest)
  moreover from more obtain t where "s1 = CHR ''.'' # t"
    by (auto simp: read_separator_def read_given_char_def split: list.splits if_splits)
  ultimately show ?thesis by metis
qed

definition group_end :: "string \<Rightarrow> bool" where
  "group_end r = (r = [] \<or> hd r = CHR '':'')"

lemma to_digit_colon [simp]: "to_digit radix (CHR '':'') = None"
  by (simp add: to_digit_def)

lemma group_end_no_digit: "group_end r \<Longrightarrow> no_digit radix r"
  by (auto simp: group_end_def no_digit_def)

lemma read_ipv4_addr_group:
  assumes "group_end r" "CHR ''.'' \<notin> set ds"
  shows "read_ipv4_addr (ds @ r) = None"
proof (rule ccontr)
  let ?P = "\<lambda>c. to_digit 10 c \<noteq> None"
  assume "read_ipv4_addr (ds @ r) \<noteq> None"
  then obtain t where t: "dropWhile ?P (ds @ r) = CHR ''.'' # t" using read_ipv4_addr_dot by blast
  show False
  proof (cases "\<forall>c\<in>set ds. ?P c")
    case True
    then have "dropWhile ?P (ds @ r) = dropWhile ?P r" by simp
    with t assms(1) show ?thesis by (cases r) (auto simp: group_end_def)
  next
    case False
    then obtain c where c: "c \<in> set ds" "\<not> ?P c" by blast
    then have "dropWhile ?P (ds @ r) = dropWhile ?P ds @ r" by (rule dropWhile_append1)
    with t have eq: "dropWhile ?P ds @ r = CHR ''.'' # t" by (simp only:)
    have "dropWhile ?P ds \<noteq> []" using c by auto
    with eq have "CHR ''.'' \<in> set (dropWhile ?P ds)"
      by (cases "dropWhile ?P ds") (simp_all del: dropWhile_eq_Nil_conv)
    with assms(2) show ?thesis by (auto dest: set_dropWhileD)
  qed
qed

lemma fmt_hex_no_dot: "CHR ''.'' \<notin> set (fmt_hex n)" and fmt_hex_no_colon: "CHR '':'' \<notin> set (fmt_hex n)"
proof -
  have "to_digit 16 c \<noteq> None" if "c \<in> set (fmt_hex n)" for c
    using that fmt_radix_digits [of 16 c n] by (auto simp: to_digit_digit_char)
  moreover have "to_digit 16 (CHR ''.'') = None" "to_digit 16 (CHR '':'') = None"
    by (simp_all add: to_digit_def)
  ultimately show "CHR ''.'' \<notin> set (fmt_hex n)" "CHR '':'' \<notin> set (fmt_hex n)" by blast+
qed

subsection \<open>Reading back the groups of an IPv6 address\<close>

fun sep_groups :: "nat \<Rightarrow> u16 list \<Rightarrow> string" where
  "sep_groups i [] = []"
| "sep_groups i (g # gs) =
     (if 0 < i then '':'' else []) @ fmt_hex (unat g) @ sep_groups (Suc i) gs"

lemma fmt_subslice_Cons: "fmt_subslice (g # gs) = fmt_hex (unat g) @ sep_groups (Suc i) gs"
  by (induction gs arbitrary: g i) (simp_all add: fmt_subslice_def)

lemma fmt_subslice_sep_groups: "fmt_subslice gs = sep_groups 0 gs"
  by (cases gs) (simp_all add: fmt_subslice_Cons, simp add: fmt_subslice_def)

text \<open>What may follow the groups: nothing, or the two colons of the omitted zeros.\<close>

definition groups_end :: "string \<Rightarrow> bool" where
  "groups_end r = (r = [] \<or> (\<exists>t. r = '':'' @ '':'' @ t))"

lemma groups_end_group_end: "groups_end r \<Longrightarrow> group_end (sep_groups (Suc i) gs @ r)"
  by (cases gs) (auto simp: groups_end_def group_end_def)

lemma read_number_colon: "read_number radix m allow bound (CHR '':'' # s) = None"
  by (simp add: read_number_def)

lemma read_number_nil: "read_number radix m allow bound [] = None"
  by (simp add: read_number_def)

lemma read_ipv4_addr_colon: "read_ipv4_addr (CHR '':'' # s) = None"
  by (simp add: read_ipv4_addr_def four_octets read_separator_def read_number_colon)

lemma read_ipv4_addr_nil: "read_ipv4_addr [] = None"
  by (simp add: read_ipv4_addr_def four_octets read_separator_def read_number_nil)

lemma read_groups_end:
  assumes "groups_end r"
  shows "read_groups limit i r = (([], False), r)"
  using assms
  by (auto simp: groups_end_def read_groups.simps [of limit i] read_separator_def
      read_given_char_def read_number_colon read_number_nil read_ipv4_addr_colon read_ipv4_addr_nil)

lemma read_groups_step:
  assumes "i < limit" "group_end r"
  shows "read_groups limit i ((if 0 < i then '':'' else []) @ fmt_hex (unat (g :: u16)) @ r) =
           (case read_groups limit (Suc i) r of ((gs, v4), s) \<Rightarrow> ((g # gs, v4), s))"
proof -
  let ?s = "(if 0 < i then '':'' else []) @ fmt_hex (unat g) @ r"
  have sep: "read_separator CHR '':'' i p ?s = p (fmt_hex (unat g) @ r)" for p :: "string \<Rightarrow> ('a \<times> string) option"
    by (simp add: read_separator_def read_given_char_def)
  have "read_ipv4_addr (fmt_hex (unat g) @ r) = None"
    using assms(2) fmt_hex_no_dot by (rule read_ipv4_addr_group)
  moreover have "read_number 16 4 True 65535 (fmt_hex (unat g) @ r) = Some (unat g, r)"
    using assms(2) by (intro read_group group_end_no_digit)
  ultimately show ?thesis
    using assms(1) by (subst read_groups.simps) (simp add: sep split: prod.splits)
qed

lemma read_groups_sep_groups:
  "i + length gs \<le> limit \<Longrightarrow> groups_end r \<Longrightarrow>
     read_groups limit i (sep_groups i gs @ r) = ((gs, False), r)"
proof (induction gs arbitrary: i)
  case Nil
  then show ?case by (simp add: read_groups_end)
next
  case (Cons g gs)
  have "read_groups limit i (sep_groups i (g # gs) @ r) =
      (case read_groups limit (Suc i) (sep_groups (Suc i) gs @ r) of ((gs, v4), s) \<Rightarrow> ((g # gs, v4), s))"
    using read_groups_step [of i limit "sep_groups (Suc i) gs @ r" g] Cons.prems
      groups_end_group_end by simp
  with Cons show ?case by simp
qed

subsection \<open>The round trip\<close>

lemma v6_of_eq:
  "length segs = 8 \<Longrightarrow> segments (v6_of segs) = segs"
  by (auto simp: v6_of_def numeral_eq_Suc length_Suc_conv)

lemma read_ipv6_full:
  assumes "length segs = 8"
  shows "read_ipv6_addr (fmt_subslice segs) = Some (v6_of segs, [])"
  using assms read_groups_sep_groups [of 0 segs 8 "[]"]
  by (simp add: read_ipv6_addr_def fmt_subslice_sep_groups groups_end_def)

lemma read_ipv6_compressed:
  assumes "length head + n + length tail = 8" "0 < n"
  shows "read_ipv6_addr (fmt_subslice head @ ''::'' @ fmt_subslice tail) =
           Some (v6_of (head @ replicate n 0 @ tail), [])"
proof -
  have "read_groups 8 0 (fmt_subslice head @ ''::'' @ fmt_subslice tail) =
      ((head, False), ''::'' @ fmt_subslice tail)"
    using assms read_groups_sep_groups [of 0 head 8 "''::'' @ fmt_subslice tail"]
    by (simp add: fmt_subslice_sep_groups groups_end_def)
  moreover have "read_groups (8 - (length head + 1)) 0 (fmt_subslice tail) = ((tail, False), [])"
    using assms read_groups_sep_groups [of 0 tail "8 - (length head + 1)" "[]"]
    by (simp add: fmt_subslice_sep_groups groups_end_def)
  moreover have "8 - length head - length tail = n" and "length head \<noteq> 8"
    using assms by auto
  ultimately show ?thesis
    by (simp add: read_ipv6_addr_def read_given_char_def)
qed

lemma read_ipv6_mapped:
  "read_ipv6_addr (''::ffff:'' @ fmt_v4 a b c d) =
     Some (v6_of [0, 0, 0, 0, 0, 0xffff, be16 a b, be16 c d], [])"
proof -
  have "digit_char 15 = CHR ''f''" by code_simp
  then have hex: "fmt_hex 65535 = ''ffff''" by (simp add: fmt_radix.simps)
  have "read_groups 7 (Suc 0) ('':'' @ fmt_v4 a b c d) = (([be16 a b, be16 c d], True), [])"
    using read_ipv4_addr_fmt [of "[]" a b c d]
    by (subst read_groups.simps) (simp add: read_separator_def read_given_char_def)
  then have "read_groups 7 0 (''ffff:'' @ fmt_v4 a b c d) =
      (([0xffff, be16 a b, be16 c d], True), [])"
    using read_groups_step [of 0 7 "'':'' @ fmt_v4 a b c d" "0xffff"]
    by (simp add: hex group_end_def)
  moreover have "read_groups 8 0 (''::ffff:'' @ fmt_v4 a b c d) = (([], False), ''::ffff:'' @ fmt_v4 a b c d)"
    by (intro read_groups_end) (simp add: groups_end_def)
  ultimately show ?thesis
    by (simp add: read_ipv6_addr_def read_given_char_def numeral_eq_Suc)
qed

text \<open>No printed IPv6 address starts like an IPv4 address.\<close>

lemma read_ipv4_addr_subslice:
  assumes "gs \<noteq> []" "groups_end r"
  shows "read_ipv4_addr (fmt_subslice gs @ r) = None"
proof -
  obtain g gs' where "gs = g # gs'" using assms(1) by (cases gs) auto
  then show ?thesis
    using assms(2) fmt_hex_no_dot groups_end_group_end [of r 0 gs']
    by (simp add: fmt_subslice_Cons [of g gs' 0] read_ipv4_addr_group)
qed

lemma to_ipv4_mapped_Some:
  assumes "to_ipv4_mapped segs = Some (a, b, c, d)"
  shows "segs = [0, 0, 0, 0, 0, 0xffff, be16 a b, be16 c d]"
  using assms by (cases segs rule: to_ipv4_mapped.cases) (auto split: if_splits)

lemma read_v6_compressed:
  assumes "length segs = 8" "zero_span segs z" "1 < span_len z"
    and fmt: "fmt_v6 segs = fmt_subslice (take (span_start z) segs) @ ''::'' @
      fmt_subslice (drop (span_start z + span_len z) segs)"
  shows "read_ipv4_addr (fmt_v6 segs) = None \<and> read_ipv6_addr (fmt_v6 segs) = Some (v6_of segs, [])"
proof -
  let ?h = "take (span_start z) segs" and ?t = "drop (span_start z + span_len z) segs"
  have split: "segs = ?h @ replicate (span_len z) 0 @ ?t" using assms(2) by (rule zero_span_split)
  then have "length ?h + span_len z + length ?t = 8"
    using assms(1) by (metis add.assoc length_append length_replicate)
  then have "read_ipv6_addr (fmt_v6 segs) = Some (v6_of segs, [])"
    using assms(3) read_ipv6_compressed [of ?h "span_len z" ?t] split fmt by simp
  moreover have "read_ipv4_addr (fmt_v6 segs) = None"
  proof (cases "?h = []")
    case True
    then have "fmt_v6 segs = CHR '':'' # CHR '':'' # fmt_subslice ?t"
      unfolding fmt by (simp only: fmt_subslice_def) simp
    then show ?thesis by (simp add: read_ipv4_addr_colon)
  next
    case False
    then show ?thesis
      unfolding fmt by (intro read_ipv4_addr_subslice) (simp_all add: groups_end_def)
  qed
  ultimately show ?thesis by simp
qed

lemma read_v6_fmt:
  assumes "length segs = 8"
  shows "read_ipv4_addr (fmt_v6 segs) = None \<and> read_ipv6_addr (fmt_v6 segs) = Some (v6_of segs, [])"
proof (cases "to_ipv4_mapped segs")
  case (Some q)
  obtain a b c d where q: "q = (a, b, c, d)" by (cases q)
  with Some have "segs = [0, 0, 0, 0, 0, 0xffff, be16 a b, be16 c d]"
    by (simp add: to_ipv4_mapped_Some)
  moreover have "fmt_v6 segs = ''::ffff:'' @ fmt_v4 a b c d"
    using Some q by (simp add: fmt_v6_def)
  ultimately show ?thesis
    using read_ipv6_mapped [of a b c d] by (simp add: read_ipv4_addr_colon)
next
  case None
  define z where "z = longest_zeros 0 no_span no_span segs"
  have z: "zero_span segs z" by (simp add: z_def longest_zeros_zero)
  show ?thesis
  proof (cases "1 < span_len z")
    case False
    with None have "fmt_v6 segs = fmt_subslice segs" by (simp add: fmt_v6_def z_def)
    moreover have "segs \<noteq> []" using assms by auto
    ultimately show ?thesis
      using assms read_ipv4_addr_subslice [of segs "[]"] by (simp add: read_ipv6_full groups_end_def)
  next
    case True
    with None have "fmt_v6 segs = fmt_subslice (take (span_start z) segs) @ ''::'' @
      fmt_subslice (drop (span_start z + span_len z) segs)"
      by (simp add: fmt_v6_def z_def Let_def)
    with assms z True show ?thesis by (rule read_v6_compressed)
  qed
qed

lemma parse_ip_to_string: "parse_ip (ip_to_string ip) = Some ip"
proof (cases ip)
  case (V4 a b c d)
  then show ?thesis
    using read_ipv4_addr_fmt [of "[]" a b c d] by (simp add: parse_ip_def read_ip_addr_def)
next
  case (V6 a b c d e f g h)
  then show ?thesis
    using read_v6_fmt [of "[a, b, c, d, e, f, g, h]"]
    by (simp add: parse_ip_def read_ip_addr_def)
qed

text \<open>Addresses meet the interface of printed values.\<close>

interpretation ip: printed ip_to_string parse_ip
proof unfold_locales
  show "\<not> is_space_char c" if "c \<in> set (ip_to_string x)" for c x
    using that ip_to_string_free addr_char_not_space by blast
qed (simp_all add: parse_ip_to_string ip_to_string_ascii)

end
