(* ===== verification/Dns.thy ===== *)
theory Dns
  imports NetParse "HOL-Library.Sublist"
begin

text \<open>
  \<open>crates/vm-image-builder/src/dns.rs\<close>: which nameservers the build VM is given. What the host
  says is a parameter (\<open>host_dns\<close>): whether the target is macOS, what running
  \<open>scutil --dns\<close> and what reading \<open>/etc/resolv.conf\<close> returned. Log lines are left out.
\<close>

definition FALLBACK_NAMESERVER :: ip_addr where
  "FALLBACK_NAMESERVER = V4 1 1 1 1"

definition MAX_NAMESERVERS :: nat where
  "MAX_NAMESERVERS = 3"

definition RESOLV_CONF :: string where
  "RESOLV_CONF = ''/etc/resolv.conf''"

record host_dns =
  target_macos :: bool
  scutil_run :: "(io_error, bool \<times> string) result"
  resolv_conf_text :: "(io_error, string) result"

subsection \<open>Operations\<close>

definition is_reachable_from_vm :: "ip_addr \<Rightarrow> bool" where
  "is_reachable_from_vm addr =
     (if is_loopback addr \<or> is_unspecified addr \<or> is_multicast addr then False
      else (case addr of
        V4 _ _ _ _ \<Rightarrow> \<not> is_link_local_v4 addr \<and> \<not> is_broadcast_v4 addr
      | V6 s0 _ _ _ _ _ _ _ \<Rightarrow> s0 AND 0xffc0 \<noteq> 0xfe80))"

definition join_addrs :: "ip_addr list \<Rightarrow> string" where
  "join_addrs addrs = join_with '' '' (map ip_to_string addrs)"

definition scutil_line :: "string \<Rightarrow> ip_addr option" where
  "scutil_line line =
     (case strip_prefix ''nameserver['' (trim_start line) of
        None \<Rightarrow> None
      | Some rest \<Rightarrow>
          (case split_once '' : '' rest of
             None \<Rightarrow> None
           | Some (index, addr) \<Rightarrow> parse_ip (trim addr)))"

definition parse_scutil :: "string \<Rightarrow> ip_addr list" where
  "parse_scutil output = List.map_filter scutil_line (lines output)"

definition resolv_conf_line :: "string \<Rightarrow> ip_addr option" where
  "resolv_conf_line l =
     (let line = trim (takeWhile (\<lambda>c. c \<noteq> CHR ''#'' \<and> c \<noteq> CHR '';'') l) in
      case strip_prefix ''nameserver'' line of
        None \<Rightarrow> None
      | Some rest \<Rightarrow>
          if \<not> starts_with_whitespace rest then None
          else parse_ip (trim rest))"

definition parse_resolv_conf :: "string \<Rightarrow> ip_addr list" where
  "parse_resolv_conf text = List.map_filter resolv_conf_line (lines text)"

fun sanitize_loop :: "ip_addr list \<Rightarrow> ip_addr list \<Rightarrow> ip_addr list" where
  "sanitize_loop kept [] = kept"
| "sanitize_loop kept (addr # addrs) =
     (if \<not> is_reachable_from_vm addr then sanitize_loop kept addrs
      else let kept' = (if addr \<in> set kept then kept else kept @ [addr]) in
           if length kept' = MAX_NAMESERVERS then kept' else sanitize_loop kept' addrs)"

definition sanitize :: "ip_addr list \<Rightarrow> ip_addr list" where
  "sanitize addrs = sanitize_loop [] addrs"

definition scutil_output :: "(io_error, bool \<times> string) result \<Rightarrow> string option" where
  "scutil_output run =
     (case run of
        Inl e \<Rightarrow> None
      | Inr (success, stdout) \<Rightarrow>
          if \<not> success then None else to_str stdout)"

definition resolv_conf_nameservers :: "host_dns \<Rightarrow> ip_addr list" where
  "resolv_conf_nameservers h =
     (case resolv_conf_text h of
        Inr text \<Rightarrow> sanitize (parse_resolv_conf text)
      | Inl e \<Rightarrow> [])"

definition host_nameservers :: "host_dns \<Rightarrow> ip_addr list" where
  "host_nameservers h =
     (if target_macos h then
        (case scutil_output (scutil_run h) of
           Some output \<Rightarrow>
             let addrs = sanitize (parse_scutil output) in
             if addrs \<noteq> [] then addrs else resolv_conf_nameservers h
         | None \<Rightarrow> resolv_conf_nameservers h)
      else resolv_conf_nameservers h)"

definition default_nameservers :: "host_dns \<Rightarrow> ip_addr list" where
  "default_nameservers h =
     (let discovered = host_nameservers h in
      if discovered = [] then [FALLBACK_NAMESERVER] else discovered)"

subsection \<open>Sanitizing is a bounded, order-preserving removal of duplicates\<close>

text \<open>The specification: the first occurrences of the usable addresses, three at most.\<close>

definition first_occurrences :: "'a list \<Rightarrow> 'a list" where
  "first_occurrences xs = rev (remdups (rev xs))"

lemma first_occurrences_snoc:
  "first_occurrences (xs @ [x]) =
     (if x \<in> set xs then first_occurrences xs else first_occurrences xs @ [x])"
  by (simp add: first_occurrences_def)

lemma set_first_occurrences [simp]: "set (first_occurrences xs) = set xs"
  by (simp add: first_occurrences_def)

lemma distinct_first_occurrences [simp]: "distinct (first_occurrences xs)"
  by (simp add: first_occurrences_def)

lemma first_occurrences_append:
  "\<exists>zs. first_occurrences (xs @ ys) = first_occurrences xs @ zs"
proof (induction ys rule: rev_induct)
  case (snoc y ys)
  then show ?case using first_occurrences_snoc [of "xs @ ys" y] by auto
qed simp

lemma sanitize_loop_spec:
  assumes "length (first_occurrences seen) < MAX_NAMESERVERS"
  shows "sanitize_loop (first_occurrences seen) addrs =
           take MAX_NAMESERVERS (first_occurrences (seen @ filter is_reachable_from_vm addrs))"
  using assms
proof (induction addrs arbitrary: seen)
  case Nil
  then show ?case by simp
next
  case (Cons a as)
  show ?case
  proof (cases "is_reachable_from_vm a")
    case False
    with Cons show ?thesis by simp
  next
    case True
    let ?kept = "first_occurrences (seen @ [a])"
    have kept: "(if a \<in> set (first_occurrences seen) then first_occurrences seen
                 else first_occurrences seen @ [a]) = ?kept"
      by (simp add: first_occurrences_snoc)
    have loop: "sanitize_loop (first_occurrences seen) (a # as) =
        (if length ?kept = MAX_NAMESERVERS then ?kept else sanitize_loop ?kept as)"
      using True kept by (simp add: Let_def)
    have le: "length ?kept \<le> MAX_NAMESERVERS"
      using Cons.prems by (simp add: first_occurrences_snoc)
    obtain zs where zs: "first_occurrences ((seen @ [a]) @ filter is_reachable_from_vm as) = ?kept @ zs"
      using first_occurrences_append by blast
    show ?thesis
    proof (cases "length ?kept = MAX_NAMESERVERS")
      case True
      with loop zs \<open>is_reachable_from_vm a\<close> show ?thesis by simp
    next
      case False
      with le have "length ?kept < MAX_NAMESERVERS" by simp
      with Cons.IH [of "seen @ [a]"] loop False \<open>is_reachable_from_vm a\<close> show ?thesis by simp
    qed
  qed
qed

lemma sanitize_first_occurrences:
  "sanitize addrs = take MAX_NAMESERVERS (first_occurrences (filter is_reachable_from_vm addrs))"
  using sanitize_loop_spec [of "[]" addrs]
  by (simp add: sanitize_def first_occurrences_def MAX_NAMESERVERS_def)

text \<open>C28. The loop that sanitizes the host's nameservers, with its early exit, computes the first
  three distinct reachable addresses in the order the host listed them.\<close>

theorem sanitize_spec:
  "sanitize addrs = take MAX_NAMESERVERS (first_occurrences (filter is_reachable_from_vm addrs))"
  by (rule sanitize_first_occurrences)

subsection \<open>What reaches the VM\<close>

text \<open>A mask of \<open>k\<close> ones above \<open>n\<close> bits keeps those bits of a number.\<close>

lemma nat_and_high_mask:
  "(m :: nat) AND push_bit n (mask k) = push_bit n (take_bit k (drop_bit n m))"
  by (rule bit_eqI) (auto simp: bit_simps)

lemma mask_range:
  assumes "unat y = push_bit n (mask k)" "unat z = push_bit n t" "t < 2 ^ k" "n + k = 16"
  shows "(x :: u16) AND y = z \<longleftrightarrow> unat x div 2 ^ n = t"
proof -
  have "unat x < 2 ^ (n + k)" using assms(4) unat_u16_bound [of x] by simp
  then have "unat x div 2 ^ n < 2 ^ k" by (simp add: less_mult_imp_div_less power_add mult.commute)
  then have keep: "take_bit k (drop_bit n (unat x)) = unat x div 2 ^ n"
    by (simp add: take_bit_nat_eq_self drop_bit_eq_div)
  have "x AND y = z \<longleftrightarrow> unat (x AND y) = unat z" by (rule word_eq_iff_unsigned)
  also have "\<dots> \<longleftrightarrow> push_bit n (unat x div 2 ^ n) = push_bit n t"
    by (simp add: unsigned_and_eq assms(1,2) nat_and_high_mask keep)
  also have "\<dots> \<longleftrightarrow> unat x div 2 ^ n = t" by (simp add: push_bit_eq_mult)
  finally show ?thesis .
qed

lemma mask_link_local: "(x :: u16) AND 0xffc0 = 0xfe80 \<longleftrightarrow> 0xfe80 \<le> unat x \<and> unat x \<le> 0xfebf"
proof -
  have "x AND 0xffc0 = 0xfe80 \<longleftrightarrow> unat x div 2 ^ 6 = 0x3fa"
    by (rule mask_range [where k = 10]) (simp_all add: mask_eq_exp_minus_1 push_bit_eq_mult)
  also have "\<dots> \<longleftrightarrow> 0xfe80 \<le> unat x \<and> unat x \<le> 0xfebf" by auto
  finally show ?thesis .
qed

lemma mask_multicast: "(x :: u16) AND 0xff00 = 0xff00 \<longleftrightarrow> 0xff00 \<le> unat x"
proof -
  have "x AND 0xff00 = 0xff00 \<longleftrightarrow> unat x div 2 ^ 8 = 0xff"
    by (rule mask_range [where k = 8]) (simp_all add: mask_eq_exp_minus_1 push_bit_eq_mult)
  also have "\<dots> \<longleftrightarrow> 0xff00 \<le> unat x" using unat_u16_bound [of x] by auto
  finally show ?thesis .
qed

text \<open>C29. Which addresses the VM may be given, as ranges: for IPv4 neither loopback, \<open>0.0.0.0\<close>,
  multicast, link-local nor the broadcast address; for IPv6 neither \<open>::\<close>, \<open>::1\<close>, multicast nor
  \<open>fe80::/10\<close>.\<close>

theorem is_reachable_from_vm_ranges:
  "is_reachable_from_vm addr \<longleftrightarrow>
     (case addr of
        V4 a b c d \<Rightarrow>
          unat a \<noteq> 127 \<and> [unat a, unat b, unat c, unat d] \<noteq> [0, 0, 0, 0]
          \<and> \<not> (224 \<le> unat a \<and> unat a \<le> 239) \<and> [unat a, unat b] \<noteq> [169, 254]
          \<and> [unat a, unat b, unat c, unat d] \<noteq> [255, 255, 255, 255]
      | V6 s0 s1 s2 s3 s4 s5 s6 s7 \<Rightarrow>
          \<not> (map unat [s0, s1, s2, s3, s4, s5, s6] = [0, 0, 0, 0, 0, 0, 0] \<and> unat s7 \<le> 1)
          \<and> unat s0 < 0xff00 \<and> \<not> (0xfe80 \<le> unat s0 \<and> unat s0 \<le> 0xfebf))"
proof (cases addr)
  case (V4 a b c d)
  then show ?thesis
    by (auto simp: is_reachable_from_vm_def word_eq_iff_unsigned [where 'a = nat] word_le_nat_alt)
next
  case (V6 s0 s1 s2 s3 s4 s5 s6 s7)
  have "unat s7 \<le> 1 \<longleftrightarrow> s7 = 0 \<or> s7 = 1"
    by (auto simp: word_eq_iff_unsigned [where 'a = nat])
  moreover have "map unat [s0, s1, s2, s3, s4, s5, s6] = [0, 0, 0, 0, 0, 0, 0] \<longleftrightarrow>
      [s0, s1, s2, s3, s4, s5, s6] = [0, 0, 0, 0, 0, 0, 0]"
    by (simp add: unsigned_eq_0_iff)
  ultimately show ?thesis
    using V6 by (simp only: is_reachable_from_vm_def mask_link_local mask_multicast ip_addr.case
        is_loopback.simps is_unspecified.simps is_multicast.simps not_le [symmetric] list.inject) auto
qed

lemma fallback_reachable: "is_reachable_from_vm FALLBACK_NAMESERVER"
  by code_simp

subsection \<open>The addresses handed to the VM\<close>

definition usable_nameservers :: "ip_addr list \<Rightarrow> bool" where
  "usable_nameservers ns =
     (list_all is_reachable_from_vm ns \<and> distinct ns \<and> length ns \<le> MAX_NAMESERVERS)"

lemma usable_sanitize: "usable_nameservers (sanitize addrs)"
proof -
  have "set (sanitize addrs) \<subseteq> set (filter is_reachable_from_vm addrs)"
    using set_take_subset by (fastforce simp: sanitize_first_occurrences)
  then show ?thesis
    by (auto simp: usable_nameservers_def list_all_iff) (simp_all add: sanitize_first_occurrences)
qed

lemma usable_nil [simp]: "usable_nameservers []"
  by (simp add: usable_nameservers_def)

lemma usable_host_nameservers: "usable_nameservers (host_nameservers h)"
  by (simp add: host_nameservers_def resolv_conf_nameservers_def Let_def usable_sanitize
      split: sum.split option.split)

lemma default_usable:
  "default_nameservers h \<noteq> [] \<and> usable_nameservers (default_nameservers h)"
  using usable_host_nameservers [of h]
  by (simp add: default_nameservers_def Let_def usable_nameservers_def fallback_reachable
      MAX_NAMESERVERS_def)

text \<open>C27. Whatever the host's resolver configuration is, readable or not, the VM is given at
  least one and at most three nameservers, all different and all reachable from inside it.\<close>

theorem default_nameservers_usable:
  "default_nameservers h \<noteq> [] \<and> usable_nameservers (default_nameservers h)"
  by (rule default_usable)

subsection \<open>Reading a \<open>resolv.conf\<close>\<close>

definition is_blank :: "char \<Rightarrow> bool" where
  "is_blank c = (c = CHR '' '' \<or> c = CHR 0x09)"

definition blank :: "string \<Rightarrow> bool" where
  "blank s = list_all is_blank s"

definition comment :: "string \<Rightarrow> bool" where
  "comment s = (s = [] \<or> hd s = CHR ''#'' \<or> hd s = CHR '';'')"

lemma is_blank_char: "is_blank c \<Longrightarrow> is_space_char c \<and> is_ascii c \<and> c \<noteq> CHR ''#'' \<and> c \<noteq> CHR '';''"
  unfolding is_blank_def by (elim disjE) (simp_all add: is_space_char_def is_whitespace_def is_ascii_def)

lemma blank_char: "blank s \<Longrightarrow> c \<in> set s \<Longrightarrow> is_space_char c \<and> is_ascii c \<and> c \<noteq> CHR ''#'' \<and> c \<noteq> CHR '';''"
  using is_blank_char by (simp add: blank_def list_all_iff)

lemma blank_space: "blank s \<Longrightarrow> \<forall>c\<in>set s. is_space_char c"
  using blank_char by blast

lemma blank_ascii: "blank s \<Longrightarrow> ascii s"
  using blank_char by (simp add: ascii_def list_all_iff)

lemma nameserver_word:
  "ascii ''nameserver''" "\<forall>c\<in>set ''nameserver''. c \<noteq> CHR ''#'' \<and> c \<noteq> CHR '';''"
  "\<not> is_space_char (CHR ''n'')"
  by (simp_all add: is_ascii_def is_space_char_def is_whitespace_def)

lemma cut_comment:
  assumes "\<forall>c\<in>set s. c \<noteq> CHR ''#'' \<and> c \<noteq> CHR '';''" "comment t"
  shows "takeWhile (\<lambda>c. c \<noteq> CHR ''#'' \<and> c \<noteq> CHR '';'') (s @ t) = s"
  using assms by (intro takeWhile_dropWhile_append_stop) (auto simp: comment_def)

text \<open>What may stand as the value of a directive.\<close>

definition conf_value :: "string \<Rightarrow> bool" where
  "conf_value x =
     (x \<noteq> [] \<and> ascii x \<and> \<not> is_space_char (hd x) \<and> \<not> is_space_char (last x) \<and>
      list_all (\<lambda>c. c \<noteq> CHR ''#'' \<and> c \<noteq> CHR '';'') x)"

lemma conf_value_ip: "conf_value (ip_to_string ip)"
proof -
  have "CHR ''#'' \<notin> set (ip_to_string ip)" "CHR '';'' \<notin> set (ip_to_string ip)"
    by (rule ip_to_string_free, simp add: addr_char_def to_digit_def)+
  then show ?thesis
    using ip.show_nonempty ip.show_ascii ip.show_ends by (auto simp: conf_value_def list_all_iff)
qed

lemma trim_directive:
  assumes "blank us" "blank vs" "blank ws" "conf_value x"
  shows "trim (us @ (''nameserver'' @ vs @ x) @ ws) = ''nameserver'' @ vs @ x"
proof -
  let ?m = "''nameserver'' @ vs @ x"
  have "ascii (us @ ?m @ ws)"
    using assms nameserver_word(1) by (simp only: ascii_append blank_ascii conf_value_def simp_thms)
  moreover have "strip_both is_space_char (us @ ?m @ ws) = ?m"
  proof (rule strip_both_pad)
    show "\<not> is_space_char (hd ?m)" using nameserver_word(3) by simp
    show "\<not> is_space_char (last ?m)" using assms(4) by (simp add: conf_value_def)
  qed (use assms blank_space in auto)
  ultimately show ?thesis by (simp only: trim_ascii)
qed

lemma resolv_conf_line_value:
  assumes "blank us" "blank vs" "vs \<noteq> []" "conf_value x" "blank ws" "comment t"
  shows "resolv_conf_line (us @ ''nameserver'' @ vs @ x @ ws @ t) = parse_ip x"
proof -
  let ?l = "us @ (''nameserver'' @ vs @ x) @ ws"
  have "\<forall>c\<in>set x. c \<noteq> CHR ''#'' \<and> c \<noteq> CHR '';''" using assms(4) by (simp add: conf_value_def list_all_iff)
  then have "\<forall>c\<in>set ?l. c \<noteq> CHR ''#'' \<and> c \<noteq> CHR '';''"
    using assms(1,2,5) blank_char nameserver_word(2) unfolding set_append ball_Un by (intro conjI) blast+
  then have cut: "takeWhile (\<lambda>c. c \<noteq> CHR ''#'' \<and> c \<noteq> CHR '';'') (?l @ t) = ?l"
    using assms(6) by (rule cut_comment)
  obtain v vs' where vs: "vs = v # vs'" using assms(3) by (cases vs) auto
  then have "is_space_char v" "is_ascii v" using assms(2) blank_char by auto
  then have "starts_with_whitespace (vs @ x)"
    by (simp add: vs starts_with_whitespace_ascii)
  moreover have "trim (vs @ x) = x"
    using assms(2,4) strip_both_pad [of x is_space_char vs "[]"]
    by (simp add: trim_ascii blank_ascii blank_space conf_value_def)
  moreover have "us @ ''nameserver'' @ vs @ x @ ws @ t = ?l @ t" by simp
  ultimately show ?thesis
    unfolding resolv_conf_line_def
    by (simp only: cut trim_directive [OF assms(1,2,5,4)] Let_def strip_prefix_append option.case
        simp_thms if_False)
qed

text \<open>A line of which the first word is another one is no nameserver line.\<close>

lemma decode_ascii_cons: "is_ascii c \<Longrightarrow> decode (c # s) = Scalar (byte c) [c] # decode s"
  by (simp add: utf8_step_ascii)

lemma drop_blank_pieces:
  assumes "blank us" "is_ascii c" "\<not> is_space_char c"
  shows "dropWhile piece_space (decode (us @ c # s)) = Scalar (byte c) [c] # decode s"
proof -
  have "decode (us @ c # s) = map (\<lambda>c. Scalar (byte c) [c]) us @ Scalar (byte c) [c] # decode s"
    using assms by (simp add: decode_ascii_append blank_ascii decode_ascii_cons del: decode.simps)
  moreover have "\<forall>p\<in>set (map (\<lambda>c. Scalar (byte c) [c]) us). piece_space p"
    using assms(1) blank_space by (auto simp: is_space_char_def)
  moreover have "\<not> piece_space (Scalar (byte c) [c])" using assms(3) by (simp add: is_space_char_def)
  ultimately show ?thesis
    by (simp only: dropWhile_append2 dropWhile.simps if_False)
qed

lemma trim_start_first:
  assumes "blank us" "is_ascii c" "\<not> is_space_char c"
  shows "trim_start (us @ c # s) = c # s"
  using drop_blank_pieces [OF assms] decode_bytes [of s] by (simp add: trim_start_def)

text \<open>Trimming keeps the first word and cuts only behind it.\<close>

lemma trim_word:
  assumes "blank us" "x \<noteq> []" "ascii x" "\<not> is_space_char (hd x)" "\<not> is_space_char (last x)"
  shows "\<exists>t. trim (us @ x @ s) = x @ t \<and> prefix t s"
proof -
  let ?p = "\<lambda>c. Scalar (byte c) [c]"
  obtain c x' where x: "x = c # x'" using assms(2) by (cases x) auto
  have c: "is_ascii c" "\<not> is_space_char c" using assms(3,4) by (simp_all add: x)
  have ascii': "ascii x'" using assms(3) by (simp add: x)
  have front: "dropWhile piece_space (decode (us @ x @ s)) = map ?p x @ decode s"
    using drop_blank_pieces [OF assms(1) c, of "x' @ s"] decode_ascii_append [OF ascii', of s] by (simp add: x)
  have "\<exists>es. dropWhile piece_space (rev ds @ rev (map ?p x)) = es @ rev (map ?p x) \<and> prefix (rev es) ds" for ds
  proof (induction ds rule: rev_induct)
    case Nil
    have "\<not> piece_space (hd (rev (map ?p x)))"
      using assms(2,5) by (simp add: hd_rev last_map is_space_char_def)
    then show ?case by (simp add: dropWhile_id)
  next
    case (snoc d ds)
    then obtain es where "dropWhile piece_space (rev ds @ rev (map ?p x)) = es @ rev (map ?p x)" "prefix (rev es) ds"
      by blast
    then show ?case
      by (cases "piece_space d") (auto intro: exI [of _ "rev (ds @ [d])"])
  qed
  then obtain es where es: "dropWhile piece_space (rev (decode s) @ rev (map ?p x)) = es @ rev (map ?p x)"
    "prefix (rev es) (decode s)" by blast
  then obtain zs where zs: "decode s = rev es @ zs" by (auto elim: prefixE)
  have "trim (us @ x @ s) = x @ concat (map piece_bytes (rev es))"
    using es(1) by (simp add: trim_def strip_both_def front comp_def concat_singletons)
  moreover have "s = concat (map piece_bytes (rev es)) @ concat (map piece_bytes zs)"
    using decode_bytes [of s] by (simp add: zs)
  ultimately show ?thesis by (metis prefixI)
qed

definition other_line :: "string \<Rightarrow> bool" where
  "other_line l =
     (\<exists>us c s. l = us @ c # s \<and> blank us \<and> is_ascii c \<and> \<not> is_space_char c \<and> \<not> prefix ''nameserver'' (c # s))"

lemma trim_blank: "blank us \<Longrightarrow> trim us = []"
  by (simp add: trim_ascii blank_ascii strip_both_all blank_space)

lemma resolv_conf_line_comment:
  assumes "blank us" "comment t"
  shows "resolv_conf_line (us @ t) = None"
proof -
  have "takeWhile (\<lambda>c. c \<noteq> CHR ''#'' \<and> c \<noteq> CHR '';'') (us @ t) = us"
    using assms blank_char by (intro cut_comment) blast+
  with assms(1) show ?thesis by (simp add: resolv_conf_line_def trim_blank)
qed

text \<open>What the cut at a comment and the trimming leave of a line that starts with a word.\<close>

lemma cut_and_trim:
  assumes "blank us" "x \<noteq> []" "ascii x" "\<not> is_space_char (hd x)" "\<not> is_space_char (last x)"
    "list_all (\<lambda>c. c \<noteq> CHR ''#'' \<and> c \<noteq> CHR '';'') x"
  shows "\<exists>t. trim (takeWhile (\<lambda>c. c \<noteq> CHR ''#'' \<and> c \<noteq> CHR '';'') (us @ x @ s)) = x @ t \<and> prefix t s"
proof -
  have "\<forall>c\<in>set us. c \<noteq> CHR ''#'' \<and> c \<noteq> CHR '';''" using assms(1) blank_char by blast
  then have "takeWhile (\<lambda>c. c \<noteq> CHR ''#'' \<and> c \<noteq> CHR '';'') (us @ x @ s) =
      us @ x @ takeWhile (\<lambda>c. c \<noteq> CHR ''#'' \<and> c \<noteq> CHR '';'') s"
    using assms(6) by (simp add: takeWhile_append2 list_all_iff)
  moreover have "prefix (takeWhile (\<lambda>c. c \<noteq> CHR ''#'' \<and> c \<noteq> CHR '';'') s) s" by (metis prefixI takeWhile_dropWhile_id)
  ultimately show ?thesis using trim_word [OF assms(1-5)] by (metis prefix_order.trans)
qed

lemma resolv_conf_line_other:
  assumes "other_line l"
  shows "resolv_conf_line l = None"
proof -
  obtain us c s where l: "l = us @ [c] @ s" "blank us" "is_ascii c" "\<not> is_space_char c" "\<not> prefix ''nameserver'' (c # s)"
    using assms by (auto simp: other_line_def)
  show ?thesis
  proof (cases "c \<noteq> CHR ''#'' \<and> c \<noteq> CHR '';''")
    case True
    with cut_and_trim [of us "[c]" s] l obtain t where
      t: "trim (takeWhile (\<lambda>c. c \<noteq> CHR ''#'' \<and> c \<noteq> CHR '';'') l) = c # t" "prefix t s" by auto
    have "prefix (c # t) (c # s)" using t(2) by simp
    then have "\<not> prefix ''nameserver'' (c # t)" using l(5) prefix_order.trans by blast
    then have "strip_prefix ''nameserver'' (c # t) = None"
      by (metis option.exhaust prefixI strip_prefix_eq_Some)
    with t(1) show ?thesis by (simp only: resolv_conf_line_def Let_def option.case)
  next
    case False
    then show ?thesis
      using resolv_conf_line_comment [of us "c # s"] l by (auto simp: comment_def)
  qed
qed

text \<open>Nor is one of which the first word only starts like it.\<close>

lemma resolv_conf_line_longer:
  assumes "blank us" "is_ascii c" "\<not> is_space_char c" "c \<noteq> CHR ''#''" "c \<noteq> CHR '';''"
  shows "resolv_conf_line (us @ ''nameserver'' @ c # s) = None"
proof -
  let ?x = "''nameserver'' @ [c]"
  have "list_all (\<lambda>c. c \<noteq> CHR ''#'' \<and> c \<noteq> CHR '';'') ?x"
    using assms(4,5) nameserver_word(2) by (simp add: list_all_iff)
  moreover have "ascii ?x" using assms(2) nameserver_word(1) by (simp only: ascii_append) simp
  moreover have "\<not> is_space_char (hd ?x)" "\<not> is_space_char (last ?x)" using assms(3) nameserver_word(3) by simp_all
  ultimately obtain t where
    "trim (takeWhile (\<lambda>c. c \<noteq> CHR ''#'' \<and> c \<noteq> CHR '';'') (us @ ?x @ s)) = ?x @ t"
    using cut_and_trim [OF assms(1), of ?x s] by blast
  moreover have "us @ ''nameserver'' @ c # s = us @ ?x @ s" "?x @ t = ''nameserver'' @ c # t" by simp_all
  moreover have "\<not> starts_with_whitespace (c # t)" using assms(2,3) by (simp add: starts_with_whitespace_ascii)
  ultimately show ?thesis
    by (simp only: resolv_conf_line_def Let_def strip_prefix_append option.case if_True simp_thms)
qed

lemma resolv_conf_line_bare:
  assumes "blank us" "blank ws" "comment t"
  shows "resolv_conf_line (us @ ''nameserver'' @ ws @ t) = None"
proof -
  let ?l = "us @ ''nameserver'' @ ws"
  have "\<forall>c\<in>set ?l. c \<noteq> CHR ''#'' \<and> c \<noteq> CHR '';''"
    using assms(1,2) blank_char nameserver_word(2) unfolding set_append by blast
  then have "takeWhile (\<lambda>c. c \<noteq> CHR ''#'' \<and> c \<noteq> CHR '';'') (?l @ t) = ?l"
    using assms(3) by (rule cut_comment)
  moreover have "trim ?l = ''nameserver''"
  proof -
    have "ascii ?l" using assms nameserver_word(1) by (simp only: ascii_append blank_ascii)
    moreover have "strip_both is_space_char ?l = ''nameserver''"
      using assms blank_space nameserver_word(3) by (intro strip_both_pad) (auto simp: is_space_char_def is_whitespace_def)
    ultimately show ?thesis by (simp only: trim_ascii)
  qed
  moreover have "\<not> starts_with_whitespace []" by (simp add: starts_with_whitespace_def)
  moreover have "strip_prefix ''nameserver'' ''nameserver'' = Some []"
    using strip_prefix_append [of "''nameserver''" "[]"] by simp
  moreover have "us @ ''nameserver'' @ ws @ t = ?l @ t" by simp
  ultimately show ?thesis
    by (simp only: resolv_conf_line_def Let_def option.case if_True simp_thms)
qed

text \<open>The lines of a \<open>resolv.conf\<close>, by what they mean: a nameserver with its indent, gap, address, padding
  and comment; one whose value is no address (it is scoped, say, or a name); the word alone; a longer
  word; a comment or nothing; any other directive.\<close>

datatype conf_line =
    NameserverLine string string ip_addr string string
  | UnreadableLine string string string string string
  | BareLine string string string
  | LongerWordLine string char string
  | CommentLine string string
  | OtherLine string

fun render_conf_line :: "conf_line \<Rightarrow> string" where
  "render_conf_line (NameserverLine us vs ip ws t) = us @ ''nameserver'' @ vs @ ip_to_string ip @ ws @ t"
| "render_conf_line (UnreadableLine us vs x ws t) = us @ ''nameserver'' @ vs @ x @ ws @ t"
| "render_conf_line (BareLine us ws t) = us @ ''nameserver'' @ ws @ t"
| "render_conf_line (LongerWordLine us c s) = us @ ''nameserver'' @ c # s"
| "render_conf_line (CommentLine us t) = us @ t"
| "render_conf_line (OtherLine l) = l"

fun wf_conf_line :: "conf_line \<Rightarrow> bool" where
  "wf_conf_line (NameserverLine us vs ip ws t) =
     (blank us \<and> blank vs \<and> vs \<noteq> [] \<and> blank ws \<and> comment t \<and> plain_line t)"
| "wf_conf_line (UnreadableLine us vs x ws t) =
     (blank us \<and> blank vs \<and> vs \<noteq> [] \<and> conf_value x \<and> parse_ip x = None \<and> plain_line x \<and>
      blank ws \<and> comment t \<and> plain_line t)"
| "wf_conf_line (BareLine us ws t) = (blank us \<and> blank ws \<and> comment t \<and> plain_line t)"
| "wf_conf_line (LongerWordLine us c s) =
     (blank us \<and> is_ascii c \<and> \<not> is_space_char c \<and> c \<noteq> CHR ''#'' \<and> c \<noteq> CHR '';'' \<and> plain_line s)"
| "wf_conf_line (CommentLine us t) = (blank us \<and> comment t \<and> plain_line t)"
| "wf_conf_line (OtherLine l) = (other_line l \<and> plain_line l)"

fun conf_line_address :: "conf_line \<Rightarrow> ip_addr option" where
  "conf_line_address (NameserverLine us vs ip ws t) = Some ip"
| "conf_line_address _ = None"

lemma resolv_conf_line_render:
  "wf_conf_line l \<Longrightarrow> resolv_conf_line (render_conf_line l) = conf_line_address l"
  by (cases l) (simp_all only: render_conf_line.simps wf_conf_line.simps conf_line_address.simps
      resolv_conf_line_value conf_value_ip ip.parse_show resolv_conf_line_bare resolv_conf_line_longer
      resolv_conf_line_comment resolv_conf_line_other not_False_eq_True)

lemma plain_line_append [simp]: "plain_line (s @ t) \<longleftrightarrow> plain_line s \<and> plain_line t"
  by (auto simp: plain_line_def)

lemma plain_line_blank: "blank s \<Longrightarrow> plain_line s"
proof -
  have "\<not> is_blank newline" "\<not> is_blank carriage_return" by (simp_all add: is_blank_def)
  then show "blank s \<Longrightarrow> plain_line s" by (auto simp: plain_line_def blank_def list_all_iff)
qed

lemmas plain_line_ip = ip.show_plain_line

lemma plain_line_nameserver: "plain_line ''nameserver''"
  by (simp add: plain_line_def)

lemma plain_line_Cons: "\<not> is_space_char c \<Longrightarrow> plain_line s \<Longrightarrow> plain_line (c # s)"
  by (auto simp: plain_line_def is_space_char_def is_whitespace_def)

lemma plain_line_render: "wf_conf_line l \<Longrightarrow> plain_line (render_conf_line l)"
  by (cases l) (simp_all only: render_conf_line.simps wf_conf_line.simps plain_line_append
      plain_line_blank plain_line_ip plain_line_nameserver plain_line_Cons not_False_eq_True simp_thms)

text \<open>A \<open>resolv.conf\<close> meets the interface of texts read line by line.\<close>

interpretation conf: line_format render_conf_line wf_conf_line conf_line_address resolv_conf_line
  by unfold_locales (simp_all only: resolv_conf_line_render plain_line_render)

text \<open>C30. A resolver configuration is read as exactly the addresses of its \<open>nameserver\<close> lines, in order,
  however these are indented, spaced and commented, and whatever stands between them: comments, empty
  lines, other directives, a longer word that starts with those letters (even one followed by an
  address), the word alone, or a value that is no address.\<close>

theorem parse_resolv_conf_rendered:
  assumes "list_all wf_conf_line ls"
  shows "parse_resolv_conf (unlines (map render_conf_line ls)) = List.map_filter conf_line_address ls"
  using conf.read_text [OF assms] by (simp add: parse_resolv_conf_def)

subsection \<open>Reading the output of \<open>scutil --dns\<close>\<close>

lemma split_once_first:
  assumes "d \<notin> set s"
  shows "split_once (d # pat) (s @ (d # pat) @ t) = Some (s, t)"
  using assms
proof (induction s)
  case Nil
  then show ?case using strip_prefix_append [of "d # pat" t] by simp
next
  case (Cons c s)
  then show ?case by simp
qed

lemma fmt_dec_free: "to_digit 10 c = None \<Longrightarrow> c \<notin> set (fmt_dec n)"
  using fmt_radix_digits [of 10 c n] by (auto simp: to_digit_digit_char)

datatype scutil_entry =
    ScutilNameserver string nat ip_addr
  | ScutilOther string

fun render_scutil :: "scutil_entry \<Rightarrow> string" where
  "render_scutil (ScutilNameserver us n ip) =
     us @ ''nameserver['' @ fmt_dec n @ ''] : '' @ ip_to_string ip"
| "render_scutil (ScutilOther l) = l"

fun wf_scutil :: "scutil_entry \<Rightarrow> bool" where
  "wf_scutil (ScutilNameserver us n ip) = blank us"
| "wf_scutil (ScutilOther l) = ((l = [] \<or> other_line l) \<and> plain_line l)"

fun scutil_address :: "scutil_entry \<Rightarrow> ip_addr option" where
  "scutil_address (ScutilNameserver us n ip) = Some ip"
| "scutil_address (ScutilOther l) = None"

lemma scutil_line_nameserver:
  assumes "blank us"
  shows "scutil_line (us @ ''nameserver['' @ fmt_dec n @ ''] : '' @ ip_to_string ip) = Some ip"
proof -
  let ?r = "fmt_dec n @ ''] : '' @ ip_to_string ip"
  have "trim_start (us @ ''nameserver['' @ ?r) = ''nameserver['' @ ?r"
    using trim_start_first [OF assms, of "CHR ''n''" "''ameserver['' @ ?r"] nameserver_word
    by simp
  moreover have "split_once '' : '' ?r = Some (fmt_dec n @ '']'', ip_to_string ip)"
  proof -
    have "to_digit 10 (CHR '' '') = None" by (simp add: to_digit_def)
    then have "CHR '' '' \<notin> set (fmt_dec n @ '']'')" using fmt_dec_free by simp
    from split_once_first [OF this, of "'': ''" "ip_to_string ip"] show ?thesis by simp
  qed
  moreover have "parse_ip (trim (ip_to_string ip)) = Some ip"
    using ip.parse_padded [of "[]" "[]" ip] by simp
  ultimately show ?thesis
    unfolding scutil_line_def by (simp only: strip_prefix_append option.case prod.case)
qed

lemma scutil_line_other:
  assumes "l = [] \<or> other_line l"
  shows "scutil_line l = None"
proof (cases "l = []")
  case False
  with assms obtain us c s where l: "l = us @ c # s" "blank us" "is_ascii c"
    "\<not> is_space_char c" "\<not> prefix ''nameserver'' (c # s)"
    by (auto simp: other_line_def)
  have "strip_prefix ''nameserver['' (c # s) = None"
  proof (rule ccontr)
    assume "strip_prefix ''nameserver['' (c # s) \<noteq> None"
    then obtain t where "c # s = ''nameserver['' @ t" by (metis option.exhaust strip_prefix_eq_Some)
    moreover have "''nameserver['' @ t = ''nameserver'' @ ''['' @ t" by simp
    ultimately have "prefix ''nameserver'' (c # s)" by (metis prefixI)
    with l(5) show False ..
  qed
  moreover have "trim_start l = c # s" using l by (simp add: trim_start_first)
  ultimately show ?thesis by (simp only: scutil_line_def option.case)
qed (simp add: scutil_line_def trim_start_def)

lemma plain_line_scutil: "wf_scutil e \<Longrightarrow> plain_line (render_scutil e)"
proof (cases e)
  case (ScutilNameserver us n ip)
  assume "wf_scutil e"
  moreover have "plain_line ''nameserver[''" "plain_line ''] : ''"
    by (simp_all add: plain_line_def)
  ultimately show ?thesis
    using ScutilNameserver
    by (simp add: plain_line_blank plain_line_ip dec.show_plain_line del: append_Cons append_Nil)
qed simp

lemma scutil_line_render: "wf_scutil e \<Longrightarrow> scutil_line (render_scutil e) = scutil_address e"
  by (cases e) (simp_all only: render_scutil.simps wf_scutil.simps scutil_address.simps
      scutil_line_nameserver scutil_line_other)

text \<open>So does what \<open>scutil\<close> prints.\<close>

interpretation scutil: line_format render_scutil wf_scutil scutil_address scutil_line
  by unfold_locales (simp_all only: scutil_line_render plain_line_scutil)

text \<open>C31. The output of \<open>scutil --dns\<close> is read as the addresses of its \<open>nameserver[N]\<close> lines,
  in the order printed, whatever other lines stand between them.\<close>

theorem parse_scutil_rendered:
  assumes "list_all wf_scutil es"
  shows "parse_scutil (unlines (map render_scutil es)) = List.map_filter scutil_address es"
  using scutil.read_text [OF assms] by (simp add: parse_scutil_def)

definition sample_scutil :: "scutil_entry list" where
  "sample_scutil = [ScutilOther ''resolver #1'', ScutilNameserver ''  '' 0 (V4 10 0 0 1), ScutilOther []]"

theorem parse_scutil_rendered_witness:
  "list_all wf_scutil sample_scutil \<and>
   parse_scutil (unlines (map render_scutil sample_scutil)) = [V4 10 0 0 1]"
proof -
  have o: "other_line ''resolver #1''"
    unfolding other_line_def
    by (intro exI [of _ "[]"] exI [of _ "CHR ''r''"] exI [of _ "''esolver #1''"])
      (simp add: blank_def is_ascii_def is_space_char_def is_whitespace_def)
  have w: "list_all wf_scutil sample_scutil"
    using o by (simp add: sample_scutil_def blank_def is_blank_def plain_line_def)
  have "List.map_filter scutil_address sample_scutil = [V4 10 0 0 1]"
    by (simp add: sample_scutil_def List.map_filter_simps)
  with w parse_scutil_rendered [OF w] show ?thesis by simp
qed

text \<open>The classification of \<open>std\<close> does not look inside an IPv4-mapped address: the mapped form of
  a loopback address passes.\<close>

lemma mapped_loopback_passes: "is_reachable_from_vm (V6 0 0 0 0 0 0xffff 0x7f00 1)"
  by code_simp

text \<open>The textual form of every address, compressed and IPv4-mapped IPv6 addresses included, is
  read back as that address by the parser every one of these texts is read with.\<close>

lemma join_addrs_parsed:
  "map parse_ip (filter (\<lambda>s. s \<noteq> []) (split_where (\<lambda>c. c = CHR '' '') (join_addrs addrs))) = map Some addrs"
proof (cases "addrs = []")
  case True
  then show ?thesis by (simp add: join_addrs_def)
next
  case False
  have "c \<noteq> CHR '' ''" if "c \<in> set (ip_to_string ip)" for c ip
    using that ip_to_string_free [of "CHR '' ''" ip] by (auto simp: addr_char_def to_digit_def)
  then have "split_where (\<lambda>c. c = CHR '' '') (join_addrs addrs) = map ip_to_string addrs"
    unfolding join_addrs_def using False by (intro split_where_join_with) auto
  then show ?thesis by (simp add: filter_map ip.parse_show o_def)
qed

end
