(* ===== verification/Tree.thy ===== *)
theory Tree
  imports Prelude "HOL-Library.AList" "HOL-Library.Sublist"
begin

text \<open>
  The tree a Unix file system is: plain files with their permission bits and bytes, symbolic
  links with their target, directories with their entries in the order a listing gives them.
  A canonical path is the list of names from the root. The tree meets the \<open>store\<close> interface,
  on which what moving a directory does is proved once.
\<close>

datatype node =
    File nat string
  | Symlink string
  | Dir "(string \<times> node) list"

fun is_dir_node :: "node \<Rightarrow> bool" where
  "is_dir_node (Dir _) = True"
| "is_dir_node _ = False"

fun is_file_node :: "node \<Rightarrow> bool" where
  "is_file_node (File _ _) = True"
| "is_file_node _ = False"

fun is_symlink_node :: "node \<Rightarrow> bool" where
  "is_symlink_node (Symlink _) = True"
| "is_symlink_node _ = False"

fun entries :: "node \<Rightarrow> (string \<times> node) list" where
  "entries (Dir es) = es"
| "entries _ = []"

fun lookup :: "node \<Rightarrow> string list \<Rightarrow> node option" where
  "lookup n [] = Some n"
| "lookup n (x # xs) = (case map_of (entries n) x of None \<Rightarrow> None | Some m \<Rightarrow> lookup m xs)"

text \<open>\<open>insert_at p m\<close> puts a node at a path whose parent directory is there, replacing what
  was; \<open>remove_at p\<close> takes the subtree at the path away. The root itself stays.\<close>

fun insert_at :: "string list \<Rightarrow> node \<Rightarrow> node \<Rightarrow> node" where
  "insert_at [] m n = n"
| "insert_at [x] m (Dir es) = Dir (AList.update x m es)"
| "insert_at (x # y # ys) m (Dir es) =
     (case map_of es x of
        None \<Rightarrow> Dir es
      | Some n \<Rightarrow> Dir (AList.update x (insert_at (y # ys) m n) es))"
| "insert_at (x # xs) m n = n"

fun remove_at :: "string list \<Rightarrow> node \<Rightarrow> node" where
  "remove_at [] n = n"
| "remove_at [x] (Dir es) = Dir (AList.delete x es)"
| "remove_at (x # y # ys) (Dir es) =
     (case map_of es x of
        None \<Rightarrow> Dir es
      | Some n \<Rightarrow> Dir (AList.update x (remove_at (y # ys) n) es))"
| "remove_at (x # xs) n = n"

definition dir_at :: "node \<Rightarrow> string list \<Rightarrow> bool" where
  "dir_at r p = (case lookup r p of Some n \<Rightarrow> is_dir_node n | None \<Rightarrow> False)"

subsection \<open>Lookup\<close>

lemma lookup_append [fs_simps]:
  "lookup r (p @ q) = (case lookup r p of None \<Rightarrow> None | Some n \<Rightarrow> lookup n q)"
  by (induction p arbitrary: r) (auto split: option.split)

lemma lookup_snoc: "lookup r (p @ [x]) = (case lookup r p of None \<Rightarrow> None | Some n \<Rightarrow> map_of (entries n) x)"
  by (simp add: lookup_append split: option.split)

lemma dir_at_lookup: "dir_at r p \<longleftrightarrow> (\<exists>es. lookup r p = Some (Dir es))"
  by (auto simp: dir_at_def split: option.split node.split elim: is_dir_node.elims)

lemma dir_at_prefix:
  assumes "dir_at r (p @ q)"
  shows "dir_at r p"
proof (cases q)
  case (Cons x xs)
  with assms obtain n where n: "lookup r p = Some n" "lookup n (x # xs) \<noteq> None"
    by (auto simp: dir_at_lookup lookup_append split: option.splits)
  then show ?thesis by (cases n) (auto simp: dir_at_lookup)
qed (use assms in simp)

lemma entries_insert_at:
  "is_dir_node n \<Longrightarrow> is_dir_node (insert_at p m n)"
  by (cases "(p, m, n)" rule: insert_at.cases) (auto split: option.split)

lemma map_of_update: "map_of (AList.update x m es) y = (if y = x then Some m else map_of es y)"
  by (simp add: update_conv')

lemma map_of_delete: "map_of (AList.delete x es) y = (if y = x then None else map_of es y)"
  by (simp add: delete_conv')

lemma insert_at_same:
  "p \<noteq> [] \<Longrightarrow> dir_at r (butlast p) \<Longrightarrow> lookup (insert_at p m r) p = Some m"
  by (induction p m r rule: insert_at.induct)
    (auto simp: map_of_update dir_at_lookup split: option.splits if_splits)

lemma insert_at_parallel:
  "\<not> prefix p q \<Longrightarrow> \<not> prefix q p \<Longrightarrow> lookup (insert_at p m r) q = lookup r q"
proof (induction p m r arbitrary: q rule: insert_at.induct)
  case (2 x m es)
  then show ?case by (cases q) (auto simp: map_of_update split: option.split)
next
  case (3 x y ys m es)
  then show ?case by (cases q) (auto simp: map_of_update split: option.split)
qed auto

lemma insert_at_above:
  "prefix q p \<Longrightarrow> q \<noteq> p \<Longrightarrow> dir_at r q \<Longrightarrow> dir_at (insert_at p m r) q"
proof (induction p m r arbitrary: q rule: insert_at.induct)
  case (2 x m es)
  then show ?case by (cases q) (auto simp: dir_at_lookup)
next
  case (3 x y ys m es)
  then show ?case
    by (cases q) (auto simp: dir_at_lookup map_of_update split: option.splits)
qed (auto simp: dir_at_lookup prefix_Cons)

lemma insert_at_no_dir:
  "\<not> dir_at r (butlast p) \<Longrightarrow> insert_at p m r = r"
proof (induction p m r rule: insert_at.induct)
  case (3 x y ys m es)
  have "AList.update x n es = es" if "map_of es x = Some n" for n
    using that by (induction es) auto
  with 3 show ?case by (auto simp: dir_at_def split: option.splits)
qed (auto simp: dir_at_def)

lemma remove_at_no_dir:
  "\<not> dir_at r (butlast p) \<Longrightarrow> remove_at p r = r"
proof (induction p r rule: remove_at.induct)
  case (3 x y ys es)
  have "AList.update x n es = es" if "map_of es x = Some n" for n
    using that by (induction es) auto
  with 3 show ?case by (auto simp: dir_at_def split: option.splits)
qed (auto simp: dir_at_def)

text \<open>What a tree holds after an insertion.\<close>

lemma lookup_insert_at:
  assumes "p \<noteq> []" "dir_at r (butlast p)"
  shows "lookup (insert_at p m r) (p @ q) = lookup m q"
  using insert_at_same [OF assms] by (simp add: lookup_append)

lemma remove_at_same: "p \<noteq> [] \<Longrightarrow> lookup (remove_at p r) (p @ q) = None"
proof (induction p r rule: remove_at.induct)
  case (3 x y ys es)
  then show ?case by (auto simp: map_of_update split: option.split)
qed (auto simp: map_of_delete split: option.split)

lemma remove_at_parallel:
  "\<not> prefix p q \<Longrightarrow> \<not> prefix q p \<Longrightarrow> lookup (remove_at p r) q = lookup r q"
proof (induction p r arbitrary: q rule: remove_at.induct)
  case (2 x es)
  then show ?case by (cases q) (auto simp: map_of_delete split: option.split)
next
  case (3 x y ys es)
  then show ?case by (cases q) (auto simp: map_of_update split: option.split)
qed auto

lemma remove_at_above:
  "prefix q p \<Longrightarrow> q \<noteq> p \<Longrightarrow> dir_at r q \<Longrightarrow> dir_at (remove_at p r) q"
proof (induction p r arbitrary: q rule: remove_at.induct)
  case (2 x es)
  then show ?case by (cases q) (auto simp: dir_at_lookup)
next
  case (3 x y ys es)
  then show ?case
    by (cases q) (auto simp: dir_at_lookup map_of_update split: option.splits)
qed (auto simp: dir_at_lookup prefix_Cons)

subsection \<open>The interface\<close>

text \<open>
  What the file-system operations rely on: after an insertion the path holds the node and
  nothing beside it changes; after a removal nothing is left at or below the path and nothing
  beside it changes. A directory moved onto a name that is beside it arrives whole, leaves
  nothing behind and disturbs nothing else.
\<close>

locale store =
  fixes get :: "'s \<Rightarrow> string list \<Rightarrow> 'n option"
    and ins :: "string list \<Rightarrow> 'n \<Rightarrow> 's \<Rightarrow> 's"
    and del :: "string list \<Rightarrow> 's \<Rightarrow> 's"
    and has_dir :: "'s \<Rightarrow> string list \<Rightarrow> bool"
  assumes get_ins: "p \<noteq> [] \<Longrightarrow> has_dir s (butlast p) \<Longrightarrow> get (ins p n s) p = Some n"
    and get_ins_beside: "\<not> prefix p q \<Longrightarrow> \<not> prefix q p \<Longrightarrow> get (ins p n s) q = get s q"
    and get_del: "p \<noteq> [] \<Longrightarrow> get (del p s) (p @ q) = None"
    and get_del_beside: "\<not> prefix p q \<Longrightarrow> \<not> prefix q p \<Longrightarrow> get (del p s) q = get s q"
    and dir_ins: "strict_prefix q p \<Longrightarrow> has_dir s q \<Longrightarrow> has_dir (ins p n s) q"
    and dir_del: "strict_prefix q p \<Longrightarrow> has_dir s q \<Longrightarrow> has_dir (del p s) q"
begin

lemma move_arrives:
  assumes "has_dir s d"
  shows "get (ins (d @ [y]) n (del (d @ [x]) s)) (d @ [y]) = Some n"
  using assms dir_del [of d "d @ [x]" s] by (intro get_ins) (simp_all add: strict_prefix_def)

lemma move_leaves_nothing:
  assumes "x \<noteq> y"
  shows "get (ins (d @ [y]) n (del (d @ [x]) s)) (d @ [x] @ q) = None"
  using assms get_del [of "d @ [x]" s q] get_ins_beside [of "d @ [y]" "d @ [x] @ q"] by simp

lemma move_beside:
  assumes "z \<noteq> x" "z \<noteq> y"
  shows "get (ins (d @ [y]) n (del (d @ [x]) s)) (d @ z # q) = get s (d @ z # q)"
  using assms get_del_beside [of "d @ [x]" "d @ z # q"] get_ins_beside [of "d @ [y]" "d @ z # q"] by simp

lemma move_keeps_parent:
  assumes "has_dir s d"
  shows "has_dir (ins (d @ [y]) n (del (d @ [x]) s)) d"
  using assms by (intro dir_ins dir_del) (simp_all add: strict_prefix_def)

end

interpretation tree: store lookup insert_at remove_at dir_at
  by unfold_locales
    (auto simp: insert_at_same insert_at_parallel remove_at_same remove_at_parallel strict_prefix_def
      intro: insert_at_above remove_at_above)

text \<open>The siblings of a removed or inserted entry.\<close>

lemma sibling_parallel: "x \<noteq> y \<Longrightarrow> \<not> prefix (d @ x # xs) (d @ y # ys)"
  by simp

end
