(* ===== verification/Paths.thy ===== *)
theory Paths
  imports Text
begin

text \<open>
  \<open>std::path\<close> on Unix: a path is its bytes; \<open>components\<close>, \<open>file_name\<close>, \<open>parent\<close> and
  \<open>join\<close> work on them as the standard library does, with repeated separators and inner
  \<open>.\<close> segments skipped.
\<close>

datatype component = RootDir | CurDir | ParentDir | Normal string

definition is_sep :: "char \<Rightarrow> bool" where
  "is_sep c = (c = CHR ''/'')"

definition has_root :: "string \<Rightarrow> bool" where
  "has_root p = (p \<noteq> [] \<and> is_sep (hd p))"

definition ignorable :: "string \<Rightarrow> bool" where
  "ignorable seg = (seg = [] \<or> seg = ''.'')"

definition seg_component :: "string \<Rightarrow> component option" where
  "seg_component seg =
     (if ignorable seg then None
      else if seg = ''..'' then Some ParentDir
      else Some (Normal seg))"

definition body_components :: "string list \<Rightarrow> component list" where
  "body_components segs = List.map_filter seg_component segs"

text \<open>The prefix of a path (root, leading dot or nothing) and the segments after it.\<close>

definition path_prefix :: "string \<Rightarrow> component list" where
  "path_prefix p =
     (if has_root p then [RootDir]
      else if hd (split_where is_sep p) = ''.'' then [CurDir]
      else [])"

definition path_body :: "string \<Rightarrow> string list" where
  "path_body p = (if path_prefix p = [] then split_where is_sep p else tl (split_where is_sep p))"

definition components :: "string \<Rightarrow> component list" where
  "components p = path_prefix p @ body_components (path_body p)"

text \<open>The segments left when the ignorable ones at the end are trimmed.\<close>

definition trim_right :: "string list \<Rightarrow> string list" where
  "trim_right segs = rev (dropWhile ignorable (rev segs))"

definition as_path :: "component list \<Rightarrow> string list \<Rightarrow> string" where
  "as_path prefix body =
     (if prefix = [RootDir] then CHR ''/'' # join_with ''/'' body
      else if prefix = [CurDir] then join_with ''/'' (''.'' # body)
      else join_with ''/'' body)"

definition file_name :: "string \<Rightarrow> string option" where
  "file_name p =
     (case rev (trim_right (path_body p)) of
        [] \<Rightarrow> None
      | seg # _ \<Rightarrow> if seg = ''..'' then None else Some seg)"

definition parent :: "string \<Rightarrow> string option" where
  "parent p =
     (case rev (trim_right (path_body p)) of
        [] \<Rightarrow> if path_prefix p = [CurDir] then Some [] else None
      | _ # segs \<Rightarrow> Some (as_path (path_prefix p) (trim_right (rev segs))))"

definition join :: "string \<Rightarrow> string \<Rightarrow> string" where
  "join base p =
     (if has_root p then p
      else if base = [] \<or> is_sep (last base) then base @ p
      else base @ ''/'' @ p)"

text \<open>\<open>Path\<close> equality compares components.\<close>

definition path_eq :: "string \<Rightarrow> string \<Rightarrow> bool" where
  "path_eq p q = (components p = components q)"

subsection \<open>Names and joined paths\<close>

text \<open>A name is one segment that stands for itself.\<close>

definition plain_name :: "string \<Rightarrow> bool" where
  "plain_name n = (n \<noteq> [] \<and> n \<noteq> ''.'' \<and> n \<noteq> ''..'' \<and> list_all (\<lambda>c. \<not> is_sep c) n)"

lemma split_name: "plain_name n \<Longrightarrow> split_where is_sep n = [n]"
  by (simp add: plain_name_def list_all_iff split_where_free)

lemma plain_name_no_root: "plain_name n \<Longrightarrow> \<not> has_root n"
  by (auto simp: plain_name_def has_root_def list_all_iff)

lemma plain_name_not_ignorable: "plain_name n \<Longrightarrow> \<not> ignorable n"
  by (simp add: plain_name_def ignorable_def)

lemma path_of_name:
  assumes "plain_name n"
  shows "path_prefix n = []" "path_body n = [n]"
  using assms by (simp_all add: path_prefix_def path_body_def split_name plain_name_no_root)
    (simp_all add: plain_name_def)

lemma body_components_simps [simp]:
  "body_components [] = []"
  "body_components (s # ss) =
     (case seg_component s of None \<Rightarrow> body_components ss | Some c \<Rightarrow> c # body_components ss)"
  by (simp_all add: body_components_def List.map_filter_simps split: option.split)

lemma body_components_append [simp]:
  "body_components (ss @ ts) = body_components ss @ body_components ts"
  by (induction ss) (simp_all split: option.split)

lemma seg_component_name: "plain_name n \<Longrightarrow> seg_component n = Some (Normal n)"
  by (simp add: seg_component_def plain_name_not_ignorable) (simp add: plain_name_def)

lemma components_name: "plain_name n \<Longrightarrow> components n = [Normal n]"
  by (simp add: components_def path_of_name seg_component_name)

lemma file_name_name: "plain_name n \<Longrightarrow> file_name n = Some n"
  by (simp add: file_name_def path_of_name trim_right_def plain_name_not_ignorable)
    (simp add: plain_name_def)

lemma parent_name: "plain_name n \<Longrightarrow> parent n = Some []"
  by (simp add: parent_def path_of_name trim_right_def plain_name_not_ignorable as_path_def)

lemma split_where_sep:
  "P d \<Longrightarrow> split_where P (s @ d # t) = split_where P s @ split_where P t"
proof (induction s)
  case (Cons c s)
  then show ?case
    using split_where_nonempty [of P s] by (cases "split_where P s") auto
qed simp

lemma is_sep_slash [simp]: "is_sep (CHR ''/'')"
  by (simp add: is_sep_def)

lemma components_slash:
  assumes "p \<noteq> []"
  shows "components (p @ CHR ''/'' # s) = components p @ body_components (split_where is_sep s)"
proof -
  have "path_prefix (p @ CHR ''/'' # s) = path_prefix p"
    using assms split_where_nonempty [of is_sep p]
    by (cases "split_where is_sep p") (auto simp: path_prefix_def has_root_def split_where_sep)
  then show ?thesis
    using split_where_nonempty [of is_sep p]
    by (cases "split_where is_sep p") (auto simp: components_def path_body_def split_where_sep split: option.split)
qed

lemma components_join:
  assumes "p \<noteq> []" "\<not> has_root s"
  shows "components (join p s) = components p @ body_components (split_where is_sep s)"
proof (cases "is_sep (last p)")
  case False
  with assms show ?thesis by (simp add: join_def components_slash)
next
  case True
  then obtain p' where p: "p = p' @ ''/''"
    using assms(1) by (metis append_butlast_last_id is_sep_def)
  show ?thesis
  proof (cases "p' = []")
    case False
    with True assms components_slash [of p' s] components_slash [of p' "[]"] p show ?thesis
      by (simp add: join_def seg_component_def ignorable_def)
  next
    case True
    with assms p have "join p s = CHR ''/'' # s" by (simp add: join_def)
    moreover have "components (CHR ''/'' # t) = RootDir # body_components (split_where is_sep t)" for t
      by (simp add: components_def path_prefix_def path_body_def has_root_def)
    ultimately show ?thesis
      using True p by (simp add: seg_component_def ignorable_def)
  qed
qed

lemma components_join_name:
  "p \<noteq> [] \<Longrightarrow> plain_name n \<Longrightarrow> components (join p n) = components p @ [Normal n]"
  by (simp add: components_join plain_name_no_root split_name seg_component_name)

lemma components_join_entry: "plain_name n \<Longrightarrow> components (join p n) = components p @ [Normal n]"
proof (cases "p = []")
  case True
  moreover have "components [] = []"
    by (simp add: components_def path_prefix_def has_root_def path_body_def seg_component_def ignorable_def)
  moreover assume "plain_name n"
  ultimately show ?thesis by (simp add: join_def plain_name_no_root components_name)
qed (simp add: components_join_name)

lemma join_entry_nonempty: "plain_name n \<Longrightarrow> join p n \<noteq> []"
  by (simp add: join_def plain_name_def)

lemma join_nonempty [simp]: "p \<noteq> [] \<Longrightarrow> join p s \<noteq> []"
  by (auto simp: join_def has_root_def)

end
