(* ===== verification/FileSystem.thy ===== *)
theory FileSystem
  imports Tree Paths
begin

text \<open>
  The calls of \<open>std::fs\<close> the program makes, on a world that holds the tree, the working
  directory and the faults to come. Each system call takes the next entry of \<open>faults\<close>: a
  \<open>Some\<close> makes it fail with that error, as a lost permission or a full disk would, and says
  how much of the work was done by then; an empty list means no more faults. Every theorem
  about an operation holds for every list of faults unless it says otherwise.

  Symbolic links are followed as the kernel does, with a bound on how many one resolution may
  cross. Permissions, ownership and trailing separators are not modelled beyond the faults.
\<close>

record fault =
  fault_error :: io_error
  fault_kept :: "string list \<Rightarrow> bool" \<comment> \<open>entries a removal had not reached\<close>
  fault_written :: nat \<comment> \<open>bytes a write had stored\<close>

record world =
  tree :: node
  cwd :: "string list"
  faults :: "fault option list"

definition SYMLOOP_MAX :: nat where
  "SYMLOOP_MAX = 40"

definition not_found :: io_error where
  "not_found = IoError NotFound ''No such file or directory''"

definition not_a_directory :: io_error where
  "not_a_directory = IoError NotADirectory ''Not a directory''"

definition is_a_directory :: io_error where
  "is_a_directory = IoError IsADirectory ''Is a directory''"

definition filesystem_loop :: io_error where
  "filesystem_loop = IoError FilesystemLoop ''Too many levels of symbolic links''"

definition already_exists :: io_error where
  "already_exists = IoError AlreadyExists ''File exists''"

definition directory_not_empty :: io_error where
  "directory_not_empty = IoError DirectoryNotEmpty ''Directory not empty''"

definition invalid_utf8 :: io_error where
  "invalid_utf8 = IoError InvalidData ''stream did not contain valid UTF-8''"

definition next_fault :: "world \<Rightarrow> fault option \<times> world" where
  "next_fault w =
     (case faults w of
        [] \<Rightarrow> (None, w)
      | f # fs \<Rightarrow> (f, w\<lparr>faults := fs\<rparr>))"

subsection \<open>Resolving a path\<close>

text \<open>\<open>walk\<close> follows components from a canonical directory through every symbolic link. It
  returns the links that may still be crossed and the canonical path, which exists.\<close>

function walk ::
  "node \<Rightarrow> nat \<Rightarrow> string list \<Rightarrow> component list \<Rightarrow> (io_error, nat \<times> string list) result" where
  "walk r fuel cur [] = Ok (fuel, cur)"
| "walk r fuel cur (RootDir # cs) = walk r fuel [] cs"
| "walk r fuel cur (CurDir # cs) = walk r fuel cur cs"
| "walk r fuel cur (ParentDir # cs) =
     (if dir_at r cur then walk r fuel (butlast cur) cs else Err not_a_directory)"
| "walk r fuel cur (Normal n # cs) =
     (if dir_at r cur then
        (case lookup r (cur @ [n]) of
           None \<Rightarrow> Err not_found
         | Some (Symlink t) \<Rightarrow>
             (case fuel of
                0 \<Rightarrow> Err filesystem_loop
              | Suc fuel' \<Rightarrow> walk r fuel' cur (components t @ cs))
         | Some _ \<Rightarrow> walk r fuel (cur @ [n]) cs)
      else Err not_a_directory)"
  by pat_completeness auto
termination
  by (relation "measures [\<lambda>(r, fuel, cur, cs). fuel, \<lambda>(r, fuel, cur, cs). length cs]") auto

definition resolve_in :: "node \<Rightarrow> string list \<Rightarrow> string \<Rightarrow> (io_error, string list) result" where
  "resolve_in r cur p =
     (if p = [] then Err not_found
      else (case walk r SYMLOOP_MAX cur (components p) of
        Inl e \<Rightarrow> Err e
      | Inr (fuel, q) \<Rightarrow> Ok q))"

text \<open>Calls that do not follow a link at the end resolve the directory and keep the name.\<close>

definition resolve_parent_in ::
  "node \<Rightarrow> string list \<Rightarrow> string \<Rightarrow> (io_error, string list \<times> string) result" where
  "resolve_parent_in r cur p =
     (if p = [] then Err not_found
      else (case rev (components p) of
        Normal n # cs \<Rightarrow>
          (case walk r SYMLOOP_MAX cur (rev cs) of
             Inl e \<Rightarrow> Err e
           | Inr (fuel, d) \<Rightarrow> if dir_at r d then Ok (d, n) else Err not_a_directory)
      | _ \<Rightarrow> Err is_a_directory))"

definition stat_in :: "node \<Rightarrow> string list \<Rightarrow> string \<Rightarrow> (io_error, node) result" where
  "stat_in r cur p =
     (case resolve_in r cur p of
        Inl e \<Rightarrow> Err e
      | Inr q \<Rightarrow> (case lookup r q of None \<Rightarrow> Err not_found | Some n \<Rightarrow> Ok n))"

abbreviation resolve :: "world \<Rightarrow> string \<Rightarrow> (io_error, string list) result" where
  "resolve w p \<equiv> resolve_in (tree w) (cwd w) p"

abbreviation resolve_parent :: "world \<Rightarrow> string \<Rightarrow> (io_error, string list \<times> string) result" where
  "resolve_parent w p \<equiv> resolve_parent_in (tree w) (cwd w) p"

abbreviation stat :: "world \<Rightarrow> string \<Rightarrow> (io_error, node) result" where
  "stat w p \<equiv> stat_in (tree w) (cwd w) p"

definition path_string :: "string list \<Rightarrow> string" where
  "path_string q = CHR ''/'' # join_with ''/'' q"

subsection \<open>Queries\<close>

definition metadata :: "string \<Rightarrow> (world, io_error, node) action" where
  "metadata p w =
     (case next_fault w of
        (Some f, w1) \<Rightarrow> (Err (fault_error f), w1)
      | (None, w1) \<Rightarrow> (stat w1 p, w1))"

text \<open>\<open>Path::is_dir\<close>, \<open>is_file\<close> and \<open>exists\<close>: \<open>false\<close> on any error.\<close>

definition path_is_dir :: "string \<Rightarrow> world \<Rightarrow> bool \<times> world" where
  "path_is_dir p w =
     (case metadata p w of
        (Inl e, w1) \<Rightarrow> (False, w1)
      | (Inr n, w1) \<Rightarrow> (is_dir_node n, w1))"

definition path_is_file :: "string \<Rightarrow> world \<Rightarrow> bool \<times> world" where
  "path_is_file p w =
     (case metadata p w of
        (Inl e, w1) \<Rightarrow> (False, w1)
      | (Inr n, w1) \<Rightarrow> (is_file_node n, w1))"

definition path_exists :: "string \<Rightarrow> world \<Rightarrow> bool \<times> world" where
  "path_exists p w =
     (case metadata p w of
        (Inl e, w1) \<Rightarrow> (False, w1)
      | (Inr n, w1) \<Rightarrow> (True, w1))"

fun permissions_mode :: "node \<Rightarrow> nat" where
  "permissions_mode (File m _) = m"
| "permissions_mode (Symlink _) = 0x1FF"
| "permissions_mode (Dir _) = 0x1ED"

definition read_to_string :: "string \<Rightarrow> (world, io_error, string) action" where
  "read_to_string p w =
     (case next_fault w of
        (Some f, w1) \<Rightarrow> (Err (fault_error f), w1)
      | (None, w1) \<Rightarrow>
          (case stat w1 p of
             Inl e \<Rightarrow> (Err e, w1)
           | Inr (File m content) \<Rightarrow>
               (if valid_utf8 content then Ok content else Err invalid_utf8, w1)
           | Inr _ \<Rightarrow> (Err is_a_directory, w1)))"

definition canonicalize_path :: "string \<Rightarrow> (world, io_error, string) action" where
  "canonicalize_path p w =
     (case next_fault w of
        (Some f, w1) \<Rightarrow> (Err (fault_error f), w1)
      | (None, w1) \<Rightarrow>
          (case resolve w1 p of Inl e \<Rightarrow> (Err e, w1) | Inr q \<Rightarrow> (Ok (path_string q), w1)))"

text \<open>A listing has the names a directory can hold, without \<open>.\<close> and \<open>..\<close>.\<close>

definition read_dir :: "string \<Rightarrow> (world, io_error, string list) action" where
  "read_dir p w =
     (case next_fault w of
        (Some f, w1) \<Rightarrow> (Err (fault_error f), w1)
      | (None, w1) \<Rightarrow>
          (case stat w1 p of
             Inl e \<Rightarrow> (Err e, w1)
           | Inr (Dir es) \<Rightarrow> (Ok (filter plain_name (map fst es)), w1)
           | Inr _ \<Rightarrow> (Err not_a_directory, w1)))"

subsection \<open>Creating and writing\<close>

definition mkdir_at :: "string list \<Rightarrow> (world, io_error, unit) action" where
  "mkdir_at q w =
     (case next_fault w of
        (Some f, w1) \<Rightarrow> (Err (fault_error f), w1)
      | (None, w1) \<Rightarrow> (Ok (), w1\<lparr>tree := insert_at q (Dir []) (tree w1)\<rparr>))"

text \<open>\<open>create_dir_all\<close>: every missing directory on the way, from the top; what is there must be
  a directory or a link to one.\<close>

fun make_dirs :: "string list \<Rightarrow> component list \<Rightarrow> (world, io_error, unit) action" where
  "make_dirs cur [] w = (Ok (), w)"
| "make_dirs cur (RootDir # cs) w = make_dirs [] cs w"
| "make_dirs cur (CurDir # cs) w = make_dirs cur cs w"
| "make_dirs cur (ParentDir # cs) w = make_dirs (butlast cur) cs w"
| "make_dirs cur (Normal n # cs) w =
     (case lookup (tree w) (cur @ [n]) of
        None \<Rightarrow>
          (case mkdir_at (cur @ [n]) w of
             (Inl e, w1) \<Rightarrow> (Err e, w1)
           | (Inr _, w1) \<Rightarrow> make_dirs (cur @ [n]) cs w1)
      | Some (Dir es) \<Rightarrow> make_dirs (cur @ [n]) cs w
      | Some (File m c) \<Rightarrow> (Err (if cs = [] then already_exists else not_a_directory), w)
      | Some (Symlink t) \<Rightarrow>
          (case walk (tree w) SYMLOOP_MAX cur [Normal n] of
             Inl e \<Rightarrow> (Err already_exists, w)
           | Inr (fuel, q) \<Rightarrow>
               if dir_at (tree w) q then make_dirs q cs w
               else (Err (if cs = [] then already_exists else not_a_directory), w)))"

definition create_dir_all :: "string \<Rightarrow> (world, io_error, unit) action" where
  "create_dir_all p w =
     (if p = [] then (Ok (), w) else make_dirs (cwd w) (components p) w)"

text \<open>Opening for writing with \<open>create\<close> and \<open>truncate\<close>; with \<open>nofollow\<close> a link in the last place
  is refused instead of followed. The handle is the canonical path of the file.\<close>

definition open_at :: "string list \<Rightarrow> (world, io_error, string list) action" where
  "open_at q w =
     (case lookup (tree w) q of
        None \<Rightarrow> (Ok q, w\<lparr>tree := insert_at q (File 0x1A4 []) (tree w)\<rparr>)
      | Some (File m c) \<Rightarrow> (Ok q, w\<lparr>tree := insert_at q (File m []) (tree w)\<rparr>)
      | Some (Dir es) \<Rightarrow> (Err is_a_directory, w)
      | Some (Symlink t) \<Rightarrow> (Err filesystem_loop, w))"

definition open_truncate :: "bool \<Rightarrow> string \<Rightarrow> (world, io_error, string list) action" where
  "open_truncate nofollow p w =
     (case next_fault w of
        (Some f, w1) \<Rightarrow> (Err (fault_error f), w1)
      | (None, w1) \<Rightarrow>
          (case resolve_parent w1 p of
             Inl e \<Rightarrow> (Err e, w1)
           | Inr (d, n) \<Rightarrow>
               (case lookup (tree w1) (d @ [n]) of
                  Some (Symlink t) \<Rightarrow>
                    if nofollow then (Err filesystem_loop, w1)
                    else (case resolve w1 p of
                      Inl e \<Rightarrow> (Err e, w1)
                    | Inr q \<Rightarrow> open_at q w1)
                | _ \<Rightarrow> open_at (d @ [n]) w1)))"

definition write_all :: "string list \<Rightarrow> string \<Rightarrow> (world, io_error, unit) action" where
  "write_all q data w =
     (case lookup (tree w) q of
        Some (File m c) \<Rightarrow>
          (case next_fault w of
             (Some f, w1) \<Rightarrow>
               (Err (fault_error f),
                w1\<lparr>tree := insert_at q (File m (c @ take (fault_written f) data)) (tree w1)\<rparr>)
           | (None, w1) \<Rightarrow> (Ok (), w1\<lparr>tree := insert_at q (File m (c @ data)) (tree w1)\<rparr>))
      | _ \<Rightarrow> (Err not_found, w))"

text \<open>\<open>std::fs::write\<close>.\<close>

definition fs_write :: "string \<Rightarrow> string \<Rightarrow> (world, io_error, unit) action" where
  "fs_write p data w =
     (case open_truncate False p w of
        (Inl e, w1) \<Rightarrow> (Err e, w1)
      | (Inr q, w1) \<Rightarrow> write_all q data w1)"

subsection \<open>Removing and renaming\<close>

text \<open>What a removal that failed half way left of a subtree.\<close>

fun pruned :: "(string list \<Rightarrow> bool) \<Rightarrow> string list \<Rightarrow> node \<Rightarrow> node" where
  "pruned kept at (Dir es) =
     Dir (map (\<lambda>(k, n). (k, pruned kept (at @ [k]) n)) (filter (\<lambda>(k, n). kept (at @ [k])) es))"
| "pruned kept at n = n"

definition remove_dir_all :: "string \<Rightarrow> (world, io_error, unit) action" where
  "remove_dir_all p w =
     (case resolve_parent w p of
        Inl e \<Rightarrow> (Err e, snd (next_fault w))
      | Inr (d, n) \<Rightarrow>
          (case lookup (tree w) (d @ [n]) of
             None \<Rightarrow> (Err not_found, snd (next_fault w))
           | Some (File m c) \<Rightarrow> (Err not_a_directory, snd (next_fault w))
           | Some (Symlink t) \<Rightarrow>
               (case next_fault w of
                  (Some f, w1) \<Rightarrow> (Err (fault_error f), w1)
                | (None, w1) \<Rightarrow> (Ok (), w1\<lparr>tree := remove_at (d @ [n]) (tree w1)\<rparr>))
           | Some (Dir es) \<Rightarrow>
               (case next_fault w of
                  (Some f, w1) \<Rightarrow>
                    (Err (fault_error f),
                     w1\<lparr>tree := insert_at (d @ [n]) (pruned (fault_kept f) [] (Dir es)) (tree w1)\<rparr>)
                | (None, w1) \<Rightarrow> (Ok (), w1\<lparr>tree := remove_at (d @ [n]) (tree w1)\<rparr>))))"

text \<open>\<open>rename\<close> replaces an empty directory by a directory and a file by a file.\<close>

definition may_replace :: "node \<Rightarrow> node option \<Rightarrow> (io_error, unit) result" where
  "may_replace src dst =
     (case dst of
        None \<Rightarrow> Ok ()
      | Some d \<Rightarrow>
          if is_dir_node src then
            (if \<not> is_dir_node d then Err not_a_directory
             else if entries d \<noteq> [] then Err directory_not_empty
             else Ok ())
          else if is_dir_node d then Err is_a_directory
          else Ok ())"

definition rename :: "string \<Rightarrow> string \<Rightarrow> (world, io_error, unit) action" where
  "rename src dst w =
     (case next_fault w of
        (Some f, w1) \<Rightarrow> (Err (fault_error f), w1)
      | (None, w1) \<Rightarrow>
          (case resolve_parent w1 src of
             Inl e \<Rightarrow> (Err e, w1)
           | Inr (sd, sn) \<Rightarrow>
               (case resolve_parent w1 dst of
                  Inl e \<Rightarrow> (Err e, w1)
                | Inr (dd, dn) \<Rightarrow>
                    (case lookup (tree w1) (sd @ [sn]) of
                       None \<Rightarrow> (Err not_found, w1)
                     | Some n \<Rightarrow>
                         if sd @ [sn] = dd @ [dn] then (Ok (), w1)
                         else if prefix (sd @ [sn]) (dd @ [dn]) then
                           (Err (IoError InvalidInput ''Invalid argument''), w1)
                         else
                           (case may_replace n (lookup (tree w1) (dd @ [dn])) of
                              Inl e \<Rightarrow> (Err e, w1)
                            | Inr _ \<Rightarrow>
                                (Ok (), w1\<lparr>tree := insert_at (dd @ [dn]) n
                                            (remove_at (sd @ [sn]) (tree w1))\<rparr>))))))"

subsection \<open>Faults and what a query leaves alone\<close>

definition no_faults :: "world \<Rightarrow> bool" where
  "no_faults w = list_all (\<lambda>f. f = None) (faults w)"

lemma next_fault_tree [simp]: "tree (snd (next_fault w)) = tree w" "cwd (snd (next_fault w)) = cwd w"
  by (simp_all add: next_fault_def split: list.split)

lemma next_faultD:
  "next_fault w = (f, w1) \<Longrightarrow> tree w1 = tree w \<and> cwd w1 = cwd w"
  using next_fault_tree [of w] by simp

lemma no_faultsD:
  "no_faults w \<Longrightarrow> \<exists>w1. next_fault w = (None, w1) \<and> no_faults w1 \<and> tree w1 = tree w \<and> cwd w1 = cwd w"
  by (cases "faults w") (auto simp: no_faults_def next_fault_def)

text \<open>Two worlds that differ in the faults to come only.\<close>

definition same_files :: "world \<Rightarrow> world \<Rightarrow> bool" where
  "same_files w w' = (tree w = tree w' \<and> cwd w = cwd w')"

lemma same_files_refl [simp]: "same_files w w"
  by (simp add: same_files_def)

lemma same_files_trans: "same_files w w' \<Longrightarrow> same_files w' w'' \<Longrightarrow> same_files w w''"
  by (simp add: same_files_def)

lemma metadata_same: "metadata p w = (r, w1) \<Longrightarrow> same_files w w1"
  by (auto simp: metadata_def same_files_def split: prod.splits option.splits dest: next_faultD)

lemma path_is_dir_same: "path_is_dir p w = (b, w1) \<Longrightarrow> same_files w w1"
  by (auto simp: path_is_dir_def split: prod.splits sum.splits dest: metadata_same)

lemma path_is_file_same: "path_is_file p w = (b, w1) \<Longrightarrow> same_files w w1"
  by (auto simp: path_is_file_def split: prod.splits sum.splits dest: metadata_same)

lemma path_exists_same: "path_exists p w = (b, w1) \<Longrightarrow> same_files w w1"
  by (auto simp: path_exists_def split: prod.splits sum.splits dest: metadata_same)

lemma read_to_string_same: "read_to_string p w = (r, w1) \<Longrightarrow> same_files w w1"
  by (auto simp: read_to_string_def same_files_def
      split: prod.splits option.splits sum.splits node.splits dest: next_faultD)

lemma canonicalize_path_same: "canonicalize_path p w = (r, w1) \<Longrightarrow> same_files w w1"
  by (auto simp: canonicalize_path_def same_files_def
      split: prod.splits option.splits sum.splits dest: next_faultD)

lemma read_dir_same: "read_dir p w = (r, w1) \<Longrightarrow> same_files w w1"
  by (auto simp: read_dir_def same_files_def
      split: prod.splits option.splits sum.splits node.splits dest: next_faultD)

lemma canonicalize_path_Ok:
  assumes "canonicalize_path p w = (Inr s, w1)"
  shows "\<exists>q. resolve w p = Ok q \<and> s = path_string q"
proof -
  obtain f w2 where f: "next_fault w = (f, w2)" by fastforce
  then have "tree w2 = tree w" "cwd w2 = cwd w" by (simp_all add: next_faultD)
  with assms f show ?thesis
    by (simp add: canonicalize_path_def split: option.splits sum.splits)
qed

text \<open>Without faults a query answers from the tree.\<close>

lemma metadata_no_faults:
  assumes "no_faults w"
  obtains w1 where "metadata p w = (stat w p, w1)" "no_faults w1" "same_files w w1"
proof -
  obtain w1 where "next_fault w = (None, w1)" "no_faults w1" "tree w1 = tree w" "cwd w1 = cwd w"
    using no_faultsD [OF assms] by blast
  then show thesis by (intro that [of w1]) (simp_all add: metadata_def same_files_def)
qed

lemma path_is_dir_no_faults:
  assumes "no_faults w"
  obtains w1 where "path_is_dir p w = ((\<exists>es. stat w p = Ok (Dir es)), w1)" "no_faults w1"
    "same_files w w1"
proof -
  obtain w1 where w1: "metadata p w = (stat w p, w1)" "no_faults w1" "same_files w w1"
    using metadata_no_faults [OF assms] .
  have "is_dir_node n \<longleftrightarrow> (\<exists>es. n = Dir es)" for n by (cases n) simp_all
  with w1 show thesis
    by (intro that [of w1]) (auto simp: path_is_dir_def split: sum.split)
qed

lemma path_is_file_no_faults:
  assumes "no_faults w"
  obtains w1 where "path_is_file p w = ((\<exists>m c. stat w p = Ok (File m c)), w1)" "no_faults w1"
    "same_files w w1"
proof -
  obtain w1 where w1: "metadata p w = (stat w p, w1)" "no_faults w1" "same_files w w1"
    using metadata_no_faults [OF assms] .
  have "is_file_node n \<longleftrightarrow> (\<exists>m c. n = File m c)" for n by (cases n) simp_all
  with w1 show thesis
    by (intro that [of w1]) (auto simp: path_is_file_def split: sum.split)
qed

subsection \<open>Growing trees\<close>

text \<open>A tree extends another when every directory and link of it is still there and every file
  is still a file, whatever it now holds. Paths that resolved keep resolving.\<close>

fun node_kept :: "node \<Rightarrow> node \<Rightarrow> bool" where
  "node_kept (Dir _) n = is_dir_node n"
| "node_kept (Symlink t) n = (n = Symlink t)"
| "node_kept (File _ _) n = is_file_node n"

definition extends :: "node \<Rightarrow> node \<Rightarrow> bool" where
  "extends r r' = (\<forall>p n. lookup r p = Some n \<longrightarrow> (\<exists>n'. lookup r' p = Some n' \<and> node_kept n n'))"

lemma node_kept_refl [simp]: "node_kept n n"
  by (cases n) simp_all

lemma node_kept_trans: "node_kept a b \<Longrightarrow> node_kept b c \<Longrightarrow> node_kept a c"
  by (cases a; cases b) auto

lemma extends_refl [simp]: "extends r r"
  by (simp add: extends_def)

lemma extends_trans: "extends r r' \<Longrightarrow> extends r' r'' \<Longrightarrow> extends r r''"
  unfolding extends_def by (meson node_kept_trans)

lemma extends_lookup:
  assumes "extends r r'" "lookup r p = Some n"
  obtains n' where "lookup r' p = Some n'" "node_kept n n'"
  using assms by (auto simp: extends_def)

lemma extends_dir_at:
  assumes "extends r r'" "dir_at r p"
  shows "dir_at r' p"
proof -
  obtain es where "lookup r p = Some (Dir es)" using assms(2) by (auto simp: dir_at_lookup)
  then obtain n' where "lookup r' p = Some n'" "node_kept (Dir es) n'"
    by (rule extends_lookup [OF assms(1)])
  then show ?thesis by (simp add: dir_at_def)
qed

lemma walk_extends:
  assumes "extends r r'" "walk r fuel cur cs = Ok res"
  shows "walk r' fuel cur cs = Ok res"
  using assms(2,1)
proof (induction r fuel cur cs rule: walk.induct)
  case (4 r fuel cur cs)
  then show ?case by (auto split: if_splits dest: extends_dir_at)
next
  case (5 r fuel cur n cs)
  from "5.prems" have d: "dir_at r cur" by (auto split: if_splits)
  with "5.prems" obtain m where m: "lookup r (cur @ [n]) = Some m" by (auto split: option.splits)
  have d': "dir_at r' cur" using d "5.prems" by (simp add: extends_dir_at)
  obtain m' where m': "lookup r' (cur @ [n]) = Some m'" "node_kept m m'"
    using "5.prems"(2) m by (rule extends_lookup)
  show ?case
  proof (cases m)
    case (Symlink t)
    with m m' "5.prems" d obtain fuel' where "fuel = Suc fuel'" "m' = Symlink t"
      by (cases fuel) auto
    with Symlink "5.IH"(2) [OF d m] "5.prems" m m' d d' show ?thesis by simp
  next
    case (File a b)
    with m' obtain a' b' where "m' = File a' b'" by (cases m') auto
    with File "5.IH"(1) [OF d m] "5.prems" m m' d d' show ?thesis by simp
  next
    case (Dir es)
    with m' obtain es' where "m' = Dir es'" by (cases m') auto
    with Dir "5.IH"(3) [OF d m] "5.prems" m m' d d' show ?thesis by simp
  qed
qed auto

subsection \<open>What an operation keeps\<close>

text \<open>\<open>keeps S r r'\<close>: outside \<open>S\<close>, every directory of the tree is still one and every file and link
  is as it was. Entries may have been added.\<close>

definition keeps :: "string list set \<Rightarrow> node \<Rightarrow> node \<Rightarrow> bool" where
  "keeps S r r' =
     (\<forall>p n. p \<notin> S \<longrightarrow> lookup r p = Some n \<longrightarrow>
        (\<exists>n'. lookup r' p = Some n' \<and> (n' = n \<or> is_dir_node n \<and> is_dir_node n')))"

lemma keeps_refl [simp]: "keeps S r r"
  by (simp add: keeps_def)

lemma keeps_trans: "keeps S r r' \<Longrightarrow> keeps S r' r'' \<Longrightarrow> keeps S r r''"
  unfolding keeps_def by (metis (full_types))

lemma keeps_mono: "keeps S r r' \<Longrightarrow> S \<subseteq> S' \<Longrightarrow> keeps S' r r'"
  by (auto simp: keeps_def)

lemma keeps_file: "keeps S r r' \<Longrightarrow> p \<notin> S \<Longrightarrow> lookup r p = Some (File m c) \<Longrightarrow> lookup r' p = Some (File m c)"
  by (auto simp: keeps_def)

lemma keeps_extends:
  assumes "keeps {} r r'"
  shows "extends r r'"
proof -
  have "node_kept n n'" if "n' = n \<or> is_dir_node n \<and> is_dir_node n'" for n n' :: node
    using that by (cases n) auto
  with assms show ?thesis unfolding keeps_def extends_def by blast
qed

lemma keeps_at_file:
  assumes "keeps {p} r r'" "lookup r p = None \<or> (\<exists>m c. lookup r p = Some (File m c))"
    "\<exists>m c. lookup r' p = Some (File m c)"
  shows "extends r r'"
  unfolding extends_def
proof (intro allI impI)
  fix q n assume n: "lookup r q = Some n"
  show "\<exists>n'. lookup r' q = Some n' \<and> node_kept n n'"
  proof (cases "q = p")
    case True
    with assms n show ?thesis by auto
  next
    case False
    with assms(1) n obtain n' where "lookup r' q = Some n'" "n' = n \<or> is_dir_node n \<and> is_dir_node n'"
      by (auto simp: keeps_def)
    then show ?thesis by (cases n) auto
  qed
qed

lemma keeps_insert_at:
  assumes "p \<noteq> []" "lookup r p = None \<or> (\<exists>m c. lookup r p = Some (File m c))"
  shows "keeps {p} r (insert_at p n r)"
proof (cases "dir_at r (butlast p)")
  case False
  then show ?thesis by (simp add: insert_at_no_dir)
next
  case dir: True
  show ?thesis
    unfolding keeps_def
  proof (intro allI impI)
    fix q m assume q: "q \<notin> {p}" "lookup r q = Some m"
    consider "prefix p q" | "prefix q p" "q \<noteq> p" | "\<not> prefix p q" "\<not> prefix q p" by blast
    then show "\<exists>n'. lookup (insert_at p n r) q = Some n' \<and> (n' = m \<or> is_dir_node m \<and> is_dir_node n')"
    proof cases
      case 1
      then obtain s where "q = p @ s" by (auto elim: prefixE)
      with assms(2) q show ?thesis by (cases s) (auto simp: lookup_append)
    next
      case 2
      then have "prefix q (butlast p)"
        using assms(1) by (metis append_butlast_last_id prefix_snoc)
      then have "dir_at r q" using dir by (auto elim!: prefixE dest: dir_at_prefix)
      with 2 q have "is_dir_node m" "dir_at (insert_at p n r) q"
        by (auto simp: dir_at_lookup intro: insert_at_above [unfolded dir_at_lookup])
      then show ?thesis by (auto simp: dir_at_lookup)
    next
      case 3
      with q show ?thesis by (simp add: insert_at_parallel)
    qed
  qed
qed

lemma keeps_insert_new:
  "p \<noteq> [] \<Longrightarrow> lookup r p = None \<Longrightarrow> keeps {} r (insert_at p n r)"
  using keeps_insert_at [of p r n] unfolding keeps_def by (metis option.distinct(1) singletonD)

lemma lookup_below_none: "lookup r p = None \<Longrightarrow> lookup r (p @ q) = None"
  by (simp add: lookup_append)

lemma prefix_strict_butlast: "prefix q p \<Longrightarrow> q \<noteq> p \<Longrightarrow> prefix q (butlast p)"
  by (metis append_butlast_last_id butlast.simps(1) prefix_snoc)

lemma keeps_remove_at:
  assumes "p \<noteq> []"
  shows "keeps {s. prefix p s} r (remove_at p r)"
proof (cases "dir_at r (butlast p)")
  case False
  then show ?thesis by (simp add: remove_at_no_dir)
next
  case dir: True
  have "\<exists>n'. lookup (remove_at p r) q = Some n' \<and> (n' = m \<or> is_dir_node m \<and> is_dir_node n')"
    if q: "\<not> prefix p q" "lookup r q = Some m" for q m
  proof (cases "prefix q p")
    case True
    with q(1) have "q \<noteq> p" by auto
    with True have "dir_at r q"
      using dir prefix_strict_butlast [of q p] by (auto elim!: prefixE dest: dir_at_prefix)
    with True \<open>q \<noteq> p\<close> have "dir_at (remove_at p r) q" by (simp add: remove_at_above)
    with q(2) \<open>dir_at r q\<close> show ?thesis by (auto simp: dir_at_lookup)
  next
    case False
    with q show ?thesis by (simp add: remove_at_parallel)
  qed
  then show ?thesis by (simp add: keeps_def)
qed

text \<open>Taking away again what was not there before.\<close>

lemma keeps_fresh:
  assumes "keeps S r r1" "lookup r q = None" "keeps (S \<union> {s. prefix q s}) r1 r2"
  shows "keeps S r r2"
proof -
  have "\<not> prefix q s" if "lookup r s = Some n" for s n
    using that assms(2) lookup_below_none by (fastforce elim: prefixE)
  with assms(1,3) show ?thesis unfolding keeps_def by (metis UnE mem_Collect_eq)
qed

lemma keeps_temporary:
  "keeps {} r r1 \<Longrightarrow> lookup r q = None \<Longrightarrow> keeps {s. prefix q s} r1 r2 \<Longrightarrow> keeps {} r r2"
  using keeps_fresh [of "{}"] by simp

lemma mkdir_at_keeps:
  "mkdir_at q w = (res, w') \<Longrightarrow> q \<noteq> [] \<Longrightarrow> lookup (tree w) q = None \<Longrightarrow>
     keeps {} (tree w) (tree w') \<and> cwd w' = cwd w"
  by (auto simp: mkdir_at_def intro: keeps_insert_new split: prod.splits option.splits dest!: next_faultD)

lemma make_dirs_keeps:
  "make_dirs cur cs w = (res, w') \<Longrightarrow> keeps {} (tree w) (tree w') \<and> cwd w' = cwd w"
proof (induction cur cs w arbitrary: res w' rule: make_dirs.induct)
  case (5 cur n cs w)
  show ?case
  proof (cases "lookup (tree w) (cur @ [n])")
    case None
    obtain r1 w1 where w1: "mkdir_at (cur @ [n]) w = (r1, w1)" by fastforce
    then have "keeps {} (tree w) (tree w1) \<and> cwd w1 = cwd w"
      using None by (intro mkdir_at_keeps) auto
    then have step: "keeps {} (tree w) (tree w1)" "cwd w1 = cwd w" by simp_all
    show ?thesis
    proof (cases r1)
      case (Inl e)
      with "5.prems" None w1 step show ?thesis by simp
    next
      case (Inr u)
      with "5.prems" None w1 have "make_dirs (cur @ [n]) cs w1 = (res, w')" by simp
      from "5.IH"(1) [OF None w1 [symmetric] Inr this] step show ?thesis
        by (auto intro: keeps_trans)
    qed
  next
    case (Some m)
    show ?thesis
    proof (cases m)
      case (Dir es)
      with "5.prems" Some have "make_dirs (cur @ [n]) cs w = (res, w')" by simp
      from "5.IH"(3) [OF Some Dir this] show ?thesis .
    next
      case (Symlink t)
      show ?thesis
      proof (cases "\<exists>fuel q. walk (tree w) SYMLOOP_MAX cur [Normal n] = Ok (fuel, q) \<and> dir_at (tree w) q")
        case True
        then obtain fuel q where
          q: "walk (tree w) SYMLOOP_MAX cur [Normal n] = Ok (fuel, q)" "dir_at (tree w) q" by blast
        with "5.prems" Some Symlink have "make_dirs q cs w = (res, w')"
          by (simp del: walk.simps)
        from "5.IH"(2) [OF Some Symlink q(1) refl q(2) this] show ?thesis .
      next
        case False
        with "5.prems" Some Symlink show ?thesis
          by (simp del: walk.simps split: sum.splits prod.splits)
      qed
    qed (use "5.prems" Some in simp)
  qed
qed auto

lemma create_dir_all_keeps:
  "create_dir_all p w = (res, w') \<Longrightarrow> keeps {} (tree w) (tree w') \<and> cwd w' = cwd w"
  by (auto simp: create_dir_all_def split: if_splits dest: make_dirs_keeps)

subsection \<open>Entries of a directory\<close>

text \<open>The directory a path leads to, when it is followed to the end.\<close>

definition leads_to :: "world \<Rightarrow> string \<Rightarrow> string list \<Rightarrow> bool" where
  "leads_to w p d = (\<exists>fuel. walk (tree w) SYMLOOP_MAX (cwd w) (components p) = Ok (fuel, d))"

lemma leads_to_det: "leads_to w p d \<Longrightarrow> leads_to w p d' \<Longrightarrow> d = d'"
  by (auto simp: leads_to_def)

lemma leads_to_same: "same_files w w' \<Longrightarrow> leads_to w' p d = leads_to w p d"
  by (simp add: leads_to_def same_files_def)

lemma leads_to_extends:
  "leads_to w p d \<Longrightarrow> extends (tree w) (tree w') \<Longrightarrow> cwd w' = cwd w \<Longrightarrow> leads_to w' p d"
  by (auto simp: leads_to_def dest: walk_extends)

lemma resolve_leads_to: "resolve w p = Ok q \<longleftrightarrow> p \<noteq> [] \<and> leads_to w p q"
  by (auto simp: resolve_in_def leads_to_def split: sum.splits prod.splits)

lemma resolve_parent_join:
  "plain_name n \<Longrightarrow> resolve_parent w (join p n) = Ok (d, m) \<longleftrightarrow>
     leads_to w p d \<and> dir_at (tree w) d \<and> m = n"
  by (auto simp: resolve_parent_in_def components_join_entry join_entry_nonempty leads_to_def
      split: sum.splits prod.splits if_splits)

lemma walk_append:
  "walk r fuel cur (cs @ ds) =
     (case walk r fuel cur cs of Inl e \<Rightarrow> Err e | Inr (fuel', q) \<Rightarrow> walk r fuel' q ds)"
proof (induction r fuel cur cs rule: walk.induct)
  case (5 r fuel cur n cs)
  then show ?case by (auto split: option.split node.split nat.split)
qed simp_all

lemma leads_to_entry:
  assumes "leads_to w p d" "dir_at (tree w) d" "plain_name n"
    "lookup (tree w) (d @ [n]) = Some m" "\<not> is_symlink_node m"
  shows "leads_to w (join p n) (d @ [n])"
  using assms by (cases m) (auto simp: leads_to_def components_join_entry walk_append)

lemma stat_entry:
  assumes "leads_to w p d" "dir_at (tree w) d" "plain_name n"
    "lookup (tree w) (d @ [n]) = Some m" "\<not> is_symlink_node m"
  shows "stat w (join p n) = Ok m"
proof -
  have "resolve w (join p n) = Ok (d @ [n])"
    using leads_to_entry [OF assms] assms(3) by (simp add: resolve_leads_to join_entry_nonempty)
  with assms(4) show ?thesis by (simp add: stat_in_def)
qed

lemma lookup_no_dir: "\<not> dir_at r d \<Longrightarrow> lookup r (d @ [n]) = None"
  by (auto simp: dir_at_def lookup_snoc split: option.splits) (metis entries.simps(2,3) is_dir_node.elims(3) map_of.simps(1))

lemma walk_missing:
  "dir_at r d \<Longrightarrow> lookup r (d @ [n]) = None \<Longrightarrow> walk r fuel d [Normal n] = Err not_found"
  by simp

subsection \<open>Opening and writing an entry\<close>

lemma open_at_cases:
  assumes "open_at q w = (res, w')" "q \<noteq> []" "dir_at (tree w) (butlast q)"
  shows "(\<exists>e. res = Err e \<and> w' = w) \<or>
    res = Ok q \<and> cwd w' = cwd w \<and> keeps {q} (tree w) (tree w') \<and>
    (\<exists>m. lookup (tree w') q = Some (File m [])) \<and>
    (lookup (tree w) q = None \<or> (\<exists>m c. lookup (tree w) q = Some (File m c)))"
proof (cases "lookup (tree w) q")
  case None
  with assms show ?thesis
    by (auto simp: open_at_def insert_at_same intro!: keeps_insert_at)
next
  case (Some n)
  with assms show ?thesis
    by (cases n) (auto simp: open_at_def insert_at_same intro!: keeps_insert_at)
qed

lemma write_all_cases:
  assumes "write_all q data w = (res, w')" "lookup (tree w) q = Some (File m c)" "q \<noteq> []"
  shows "cwd w' = cwd w \<and> keeps {q} (tree w) (tree w') \<and>
    (\<exists>k. lookup (tree w') q = Some (File m (c @ take k data))) \<and>
    (is_ok res \<longrightarrow> lookup (tree w') q = Some (File m (c @ data)))"
proof -
  have d: "dir_at (tree w) (butlast q)"
    using assms(2,3) lookup_no_dir [of "tree w" "butlast q" "last q"] by auto
  obtain f w1 where f: "next_fault w = (f, w1)" by fastforce
  then have w1: "tree w1 = tree w" "cwd w1 = cwd w" by (simp_all add: next_faultD)
  have k: "keeps {q} (tree w) (insert_at q n (tree w))" for n
    using assms(2,3) by (intro keeps_insert_at) auto
  show ?thesis
  proof (cases f)
    case None
    with assms f w1 d k show ?thesis
      by (auto simp: write_all_def insert_at_same intro!: exI [of _ "length data"])
  next
    case (Some e)
    with assms f w1 d k show ?thesis by (auto simp: write_all_def insert_at_same)
  qed
qed

lemma open_nofollow_join:
  assumes "open_truncate True (join p n) w = (res, w')" "plain_name n"
  shows "(\<exists>e. res = Err e \<and> same_files w w') \<or>
    (\<exists>d m. leads_to w p d \<and> res = Ok (d @ [n]) \<and> cwd w' = cwd w \<and>
       keeps {d @ [n]} (tree w) (tree w') \<and> lookup (tree w') (d @ [n]) = Some (File m []) \<and>
       (lookup (tree w) (d @ [n]) = None \<or> (\<exists>m c. lookup (tree w) (d @ [n]) = Some (File m c))))"
proof -
  obtain f w1 where f: "next_fault w = (f, w1)" by fastforce
  then have w1: "tree w1 = tree w" "cwd w1 = cwd w" by (simp_all add: next_faultD)
  then have s: "same_files w w1" by (simp add: same_files_def)
  show ?thesis
  proof (cases "f = None \<and> (\<exists>d. leads_to w p d \<and> dir_at (tree w) d)")
    case True
    then obtain d where d: "leads_to w p d" "dir_at (tree w) d" by blast
    then have r: "resolve_parent w (join p n) = Ok (d, n)"
      by (simp add: resolve_parent_join assms(2))
    show ?thesis
    proof (cases "\<exists>t. lookup (tree w) (d @ [n]) = Some (Symlink t)")
      case True
      with assms f w1 s r \<open>f = None \<and> _\<close> show ?thesis by (auto simp: open_truncate_def)
    next
      case False
      with assms f w1 r \<open>f = None \<and> _\<close> have "open_at (d @ [n]) w1 = (res, w')"
        by (auto simp: open_truncate_def split: option.splits node.splits)
      from open_at_cases [OF this] d w1 s show ?thesis by auto
    qed
  next
    case False
    then have "f = None \<Longrightarrow> \<exists>e. resolve_parent w (join p n) = Err e"
      using resolve_parent_join [OF assms(2), of w p]
      by (cases "resolve_parent w (join p n)") auto
    with assms f w1 s show ?thesis
      by (cases f) (auto simp: open_truncate_def)
  qed
qed

end
