(* ===== verification/VmImageBuilder.thy ===== *)
theory VmImageBuilder
  imports Dns FileSystem
begin

text \<open>
  \<open>crates/vm-image-builder/src/lib.rs\<close>: the configuration of the build VM, the check of its
  root filesystem, the resolved build request, the errors and their messages, and \<open>build\<close>
  itself up to the call of the runner. A \<open>VmRunner\<close> is a record of its two methods, any
  functions of the request and the world. Log lines are left out.
\<close>

definition DEFAULT_CPUS :: u8 where
  "DEFAULT_CPUS = 2"

definition DEFAULT_MEMORY_MIB :: u32 where
  "DEFAULT_MEMORY_MIB = 4096"

definition VM_BUILD_SCRIPT :: string where
  "VM_BUILD_SCRIPT = ''/usr/local/bin/vm-build''"

definition TAG_ROOT :: string where
  "TAG_ROOT = ''/dev/root''"

definition TAG_CONTEXT :: string where
  "TAG_CONTEXT = ''openshell-context''"

definition TAG_OUTPUT :: string where
  "TAG_OUTPUT = ''openshell-output''"

definition VM_DNS_ENV :: string where
  "VM_DNS_ENV = ''OPENSHELL_VM_DNS''"

definition CONTAINERFILE_NAME :: string where
  "CONTAINERFILE_NAME = ''Containerfile''"

record vm_config =
  rootfs :: string
  cpus :: u8
  memory_mib :: u32
  nameservers :: "ip_addr list"

record vm_build =
  build_rootfs :: string
  build_context :: string
  output_dir :: string
  output_filename :: string
  build_tag :: string
  build_cpus :: u8
  build_memory_mib :: u32
  build_nameservers :: "ip_addr list"

datatype vm_build_error =
    Io io_error
  | PathError string string io_error \<comment> \<open>\<open>what\<close>, \<open>path\<close>, \<open>source\<close>\<close>
  | RootfsError string string \<comment> \<open>\<open>path\<close>, \<open>reason\<close>\<close>
  | Unsupported string
  | MultiThreaded nat
  | Krun string int \<comment> \<open>\<open>call\<close>, \<open>code\<close>\<close>
  | Failed "int option"

record vm_runner =
  runner_run :: "vm_build \<Rightarrow> (world, vm_build_error, unit) action"
  runner_check_supported :: "(vm_build_error, unit) result"

subsection \<open>Errors\<close>

abbreviation em_dash :: string where
  "em_dash \<equiv> [CHR 0xE2, CHR 0x80, CHR 0x94]"

definition vm_error_display :: "vm_build_error \<Rightarrow> string" where
  "vm_error_display e =
     (case e of
        Io err \<Rightarrow> ''I/O error: '' @ io_display err
      | PathError what path source \<Rightarrow>
          what @ '' '' @ [CHR 0x27] @ to_string_lossy path @ [CHR 0x27] @ '': '' @ io_display source
      | RootfsError path reason \<Rightarrow>
          ''VM rootfs '' @ [CHR 0x27] @ to_string_lossy path @ [CHR 0x27] @ '': '' @ reason
      | Unsupported reason \<Rightarrow> ''VM builds are not available: '' @ reason
      | MultiThreaded threads \<Rightarrow>
          ''cannot start a VM from a process with '' @ fmt_dec threads
          @ '' threads: libkrun is entered after fork() without exec(), which is only safe while the process is single-threaded''
      | Krun call code \<Rightarrow> ''libkrun call '' @ call @ '' failed with code '' @ fmt_int code
      | Failed (Some code) \<Rightarrow> ''VM build failed with exit code '' @ fmt_int code
      | Failed None \<Rightarrow> ''VM build was terminated by a signal'')"

definition vm_error_source :: "vm_build_error \<Rightarrow> io_error option" where
  "vm_error_source e =
     (case e of Io err \<Rightarrow> Some err | PathError what path source \<Rightarrow> Some source | _ \<Rightarrow> None)"

subsection \<open>\<open>VmConfig\<close>\<close>

definition vm_config_new :: "host_dns \<Rightarrow> string \<Rightarrow> vm_config" where
  "vm_config_new h dir =
     \<lparr>rootfs = dir, cpus = DEFAULT_CPUS, memory_mib = DEFAULT_MEMORY_MIB,
      nameservers = default_nameservers h\<rparr>"

definition helper_path :: "string \<Rightarrow> string" where
  "helper_path dir = join dir (dropWhile is_sep VM_BUILD_SCRIPT)"

definition not_a_rootfs_dir :: string where
  "not_a_rootfs_dir = ''not a directory '' @ em_dash @ '' build it with vm-image/make-rootfs.sh''"

definition missing_helper :: string where
  "missing_helper = ''missing /usr/local/bin/vm-build '' @ em_dash @ '' not a build rootfs''"

definition helper_not_executable :: string where
  "helper_not_executable = ''/usr/local/bin/vm-build is not executable''"

definition check_rootfs :: "vm_config \<Rightarrow> (world, vm_build_error, unit) action" where
  "check_rootfs config w =
     (case path_is_dir (rootfs config) w of
        (False, w1) \<Rightarrow> (Err (RootfsError (rootfs config) not_a_rootfs_dir), w1)
      | (True, w1) \<Rightarrow>
          (let helper = helper_path (rootfs config) in
           case path_is_file helper w1 of
             (False, w2) \<Rightarrow> (Err (RootfsError (rootfs config) missing_helper), w2)
           | (True, w2) \<Rightarrow>
               (case metadata helper w2 of
                  (Inl e, w3) \<Rightarrow> (Err (Io e), w3)
                | (Inr n, w3) \<Rightarrow>
                    if permissions_mode n AND 0x49 = 0 then
                      (Err (RootfsError (rootfs config) helper_not_executable), w3)
                    else (Ok (), w3))))"

subsection \<open>\<open>VmBuild\<close>\<close>

definition dns_env_value :: "vm_build \<Rightarrow> string option" where
  "dns_env_value b =
     (if build_nameservers b = [] then None else Some (join_addrs (build_nameservers b)))"

definition containerfile_vm_path :: "vm_build \<Rightarrow> string" where
  "containerfile_vm_path b = ''/build/context/'' @ CONTAINERFILE_NAME"

definition output_path :: "vm_build \<Rightarrow> string" where
  "output_path b = join (output_dir b) (output_filename b)"

subsection \<open>\<open>build\<close>\<close>

definition write_containerfile :: "string \<Rightarrow> string \<Rightarrow> (world, vm_build_error, unit) action" where
  "write_containerfile context_dir containerfile w =
     (let path = join context_dir CONTAINERFILE_NAME in
      case open_truncate True path w of
        (Inl source, w1) \<Rightarrow> (Err (PathError ''Containerfile in the build context'' path source), w1)
      | (Inr file, w1) \<Rightarrow>
          (case write_all file containerfile w1 of
             (Inl e, w2) \<Rightarrow> (Err (Io e), w2)
           | (Inr _, w2) \<Rightarrow> (Ok (), w2)))"

definition canonicalize :: "string \<Rightarrow> string \<Rightarrow> (world, vm_build_error, string) action" where
  "canonicalize path what w =
     (case canonicalize_path path w of
        (Inl source, w1) \<Rightarrow> (Err (PathError what path source), w1)
      | (Inr p, w1) \<Rightarrow> (Ok p, w1))"

definition output_parent :: "string \<Rightarrow> string" where
  "output_parent output =
     (case parent output of
        None \<Rightarrow> ''.''
      | Some p \<Rightarrow> if p = [] then ''.'' else p)"

definition build ::
  "string \<Rightarrow> string \<Rightarrow> vm_config \<Rightarrow> vm_runner \<Rightarrow> string \<Rightarrow> string \<Rightarrow>
     (world, vm_build_error, unit) action" where
  "build containerfile tag config runner context_dir output w =
     (case check_rootfs config w of
        (Inl e, w1) \<Rightarrow> (Err e, w1)
      | (Inr _, w1) \<Rightarrow>
     (case write_containerfile context_dir containerfile w1 of
        (Inl e, w2) \<Rightarrow> (Err e, w2)
      | (Inr _, w2) \<Rightarrow>
     (case canonicalize (rootfs config) ''VM rootfs'' w2 of
        (Inl e, w3) \<Rightarrow> (Err e, w3)
      | (Inr dir, w3) \<Rightarrow>
     (case canonicalize context_dir ''build context'' w3 of
        (Inl e, w4) \<Rightarrow> (Err e, w4)
      | (Inr context, w4) \<Rightarrow>
     (case file_name output of
        None \<Rightarrow>
          (Err (PathError ''output path has no filename'' output (IoError InvalidInput ''no filename'')), w4)
      | Some name \<Rightarrow>
     (case create_dir_all (output_parent output) w4 of
        (Inl e, w5) \<Rightarrow> (Err (Io e), w5)
      | (Inr _, w5) \<Rightarrow>
     (case canonicalize (output_parent output) ''output directory'' w5 of
        (Inl e, w6) \<Rightarrow> (Err e, w6)
      | (Inr out, w6) \<Rightarrow>
          runner_run runner
            \<lparr>build_rootfs = dir, build_context = context, output_dir = out,
             output_filename = to_string_lossy name, build_tag = tag, build_cpus = cpus config,
             build_memory_mib = memory_mib config, build_nameservers = nameservers config\<rparr> w6)))))))"

subsection \<open>The process must be single-threaded\<close>

text \<open>What \<open>proc_pidinfo\<close> gave: its return value, the thread count it stored, and \<open>errno\<close>;
  \<open>info_size\<close> is the size of \<open>proc_taskinfo\<close> in the \<open>libc\<close> crate.\<close>

record pidinfo =
  pid_ret :: int
  pti_threadnum :: int
  pid_errno :: io_error

definition host_thread_count :: "int \<Rightarrow> pidinfo \<Rightarrow> (io_error, nat) result" where
  "host_thread_count info_size info =
     (if pid_ret info < 0 then Err (pid_errno info)
      else if pid_ret info \<noteq> info_size then
        Err (IoError OtherKind
          (''proc_pidinfo(PROC_PIDTASKINFO) wrote '' @ fmt_int (pid_ret info) @ '' bytes, expected ''
           @ fmt_int info_size))
      else Ok (nat (max (pti_threadnum info) 0)))"

definition check_single_threaded ::
  "bool \<Rightarrow> int \<Rightarrow> pidinfo \<Rightarrow> (vm_build_error, unit) result" where
  "check_single_threaded macos info_size info =
     (if macos then
        (case host_thread_count info_size info of
           Inl e \<Rightarrow> Err (Io e)
         | Inr threads \<Rightarrow> if 1 < threads then Err (MultiThreaded threads) else Ok ())
      else Ok ())"

subsection \<open>Whether libkrun can run here\<close>

record target =
  feature_krun :: bool
  os_macos :: bool
  arch_aarch64 :: bool

definition libkrun_available :: "target \<Rightarrow> bool" where
  "libkrun_available t = (feature_krun t \<and> os_macos t \<and> arch_aarch64 t)"

definition krun_check_supported :: "target \<Rightarrow> (vm_build_error, unit) result" where
  "krun_check_supported t =
     (if libkrun_available t then Ok ()
      else if \<not> (os_macos t \<and> arch_aarch64 t) then
        Err (Unsupported ''libkrun requires macOS on Apple Silicon'')
      else Err (Unsupported (''this binary was built without the '' @ [CHR 0x27] @ ''vm'' @ [CHR 0x27]
                             @ '' feature'')))"

text \<open>\<open>KrunRunner::run\<close> where libkrun is not compiled in; \<open>None\<close> is the \<open>unreachable!\<close> panic.\<close>

definition run_without_libkrun :: "target \<Rightarrow> (vm_build_error, unit) result option" where
  "run_without_libkrun t =
     (case krun_check_supported t of
        Inl e \<Rightarrow> Some (Err e)
      | Inr _ \<Rightarrow> None)"

subsection \<open>The root filesystem check\<close>

lemma check_rootfs_same: "check_rootfs config w = (res, w') \<Longrightarrow> same_files w w'"
  by (auto simp: check_rootfs_def Let_def split: prod.splits bool.splits sum.splits if_splits
      dest!: path_is_dir_same path_is_file_same metadata_same intro: same_files_trans)

lemma check_rootfs_is_dir:
  assumes "check_rootfs config w = (Inr u, w')"
  shows "\<exists>es. stat w (rootfs config) = Ok (Dir es)"
proof -
  obtain w1 where w1: "path_is_dir (rootfs config) w = (True, w1)"
    using assms by (auto simp: check_rootfs_def split: prod.splits bool.splits)
  obtain f w0 where f: "next_fault w = (f, w0)" by fastforce
  then have "tree w0 = tree w" "cwd w0 = cwd w" by (simp_all add: next_faultD)
  with w1 f show ?thesis
    by (auto simp: path_is_dir_def metadata_def split: prod.splits sum.splits option.splits
        elim: is_dir_node.elims)
qed

definition usable_rootfs :: "world \<Rightarrow> string \<Rightarrow> bool" where
  "usable_rootfs w dir =
     ((\<exists>es. stat w dir = Ok (Dir es)) \<and>
      (\<exists>m c. stat w (helper_path dir) = Ok (File m c) \<and> (bit m 0 \<or> bit m 3 \<or> bit m 6)))"

lemma mask_0x49: "(m :: nat) AND 0x49 = 0 \<longleftrightarrow> \<not> (bit m 0 \<or> bit m 3 \<or> bit m 6)"
proof -
  have b: "bit (0x49 :: nat) i \<longleftrightarrow> i = 0 \<or> i = 3 \<or> i = 6" for i
  proof -
    have "(0x49 :: nat) = set_bit 0 (set_bit 3 (set_bit 6 0))" by code_simp
    then show ?thesis by (simp only: bit_set_bit_iff) auto
  qed
  have "m AND 0x49 = 0 \<longleftrightarrow> (\<forall>i. \<not> (bit m i \<and> bit (0x49 :: nat) i))"
    by (auto simp: bit_eq_iff [of "m AND 0x49"] bit_and_iff)
  then show ?thesis by (simp only: b) blast
qed

text \<open>Without I/O faults, \<open>check_rootfs\<close> accepts a configuration exactly when its rootfs is a
  directory, \<open>usr/local/bin/vm-build\<close> in it is a regular file and one of that file's three
  execute bits is set.\<close>

lemma check_rootfs_accepts:
  assumes "no_faults w"
  shows "is_ok (fst (check_rootfs config w)) \<longleftrightarrow> usable_rootfs w (rootfs config)"
proof -
  let ?dir = "rootfs config" and ?helper = "helper_path (rootfs config)"
  obtain w1 where w1: "path_is_dir ?dir w = ((\<exists>es. stat w ?dir = Ok (Dir es)), w1)"
    "no_faults w1" "same_files w w1"
    using path_is_dir_no_faults [OF assms] .
  obtain w2 where w2: "path_is_file ?helper w1 = ((\<exists>m c. stat w1 ?helper = Ok (File m c)), w2)"
    "no_faults w2" "same_files w1 w2"
    using path_is_file_no_faults [OF w1(2)] .
  obtain w3 where w3: "metadata ?helper w2 = (stat w2 ?helper, w3)" "no_faults w3" "same_files w2 w3"
    using metadata_no_faults [OF w2(2)] .
  have s: "stat w1 p = stat w p" "stat w2 p = stat w p" for p
    using w1(3) w2(3) by (simp_all add: same_files_def)
  show ?thesis
    unfolding check_rootfs_def usable_rootfs_def Let_def w1(1)
    by (auto simp: w2(1) w3(1) s mask_0x49 split: bool.split sum.split)
qed

text \<open>A rootfs for the witnesses, with an executable helper.\<close>

definition sample_rootfs :: node where
  "sample_rootfs = Dir [(''usr'', Dir [(''local'', Dir [(''bin'', Dir [(''vm-build'', File 0x1ED [])])])])]"

definition sample_world :: world where
  "sample_world =
     \<lparr>tree = Dir [(''rootfs'', sample_rootfs), (''context'', Dir [(''keep'', File 0x1A4 ''data'')])],
      cwd = [], faults = []\<rparr>"

definition sample_config :: vm_config where
  "sample_config = \<lparr>rootfs = ''/rootfs'', cpus = 2, memory_mib = 4096, nameservers = []\<rparr>"

subsection \<open>The Containerfile in the context\<close>

lemma plain_CONTAINERFILE_NAME [simp]: "plain_name CONTAINERFILE_NAME"
  by code_simp

text \<open>What writing the Containerfile can have done, whatever faults come.\<close>

lemma write_containerfile_cases:
  assumes "write_containerfile ctx cf w = (res, w')"
  shows "(\<exists>e. res = Err e) \<and> same_files w w' \<or>
    (\<exists>d m k. leads_to w ctx d \<and> cwd w' = cwd w \<and>
       keeps {d @ [CONTAINERFILE_NAME]} (tree w) (tree w') \<and> extends (tree w) (tree w') \<and>
       (lookup (tree w) (d @ [CONTAINERFILE_NAME]) = None \<or>
        (\<exists>m c. lookup (tree w) (d @ [CONTAINERFILE_NAME]) = Some (File m c))) \<and>
       lookup (tree w') (d @ [CONTAINERFILE_NAME]) = Some (File m (take k cf)) \<and>
       (is_ok res \<longrightarrow> take k cf = cf))"
proof -
  obtain r1 w1 where o: "open_truncate True (join ctx CONTAINERFILE_NAME) w = (r1, w1)" by fastforce
  from open_nofollow_join [OF o plain_CONTAINERFILE_NAME] show ?thesis
  proof
    assume "\<exists>e. r1 = Err e \<and> same_files w w1"
    with assms o show ?thesis by (auto simp: write_containerfile_def Let_def)
  next
    assume "\<exists>d m. leads_to w ctx d \<and> r1 = Ok (d @ [CONTAINERFILE_NAME]) \<and> cwd w1 = cwd w \<and>
       keeps {d @ [CONTAINERFILE_NAME]} (tree w) (tree w1) \<and>
       lookup (tree w1) (d @ [CONTAINERFILE_NAME]) = Some (File m []) \<and>
       (lookup (tree w) (d @ [CONTAINERFILE_NAME]) = None \<or>
        (\<exists>m c. lookup (tree w) (d @ [CONTAINERFILE_NAME]) = Some (File m c)))"
    then obtain d m where d: "leads_to w ctx d" "r1 = Ok (d @ [CONTAINERFILE_NAME])" "cwd w1 = cwd w"
      "keeps {d @ [CONTAINERFILE_NAME]} (tree w) (tree w1)"
      "lookup (tree w1) (d @ [CONTAINERFILE_NAME]) = Some (File m [])"
      "lookup (tree w) (d @ [CONTAINERFILE_NAME]) = None \<or>
        (\<exists>m c. lookup (tree w) (d @ [CONTAINERFILE_NAME]) = Some (File m c))" by blast
    let ?q = "d @ [CONTAINERFILE_NAME]"
    obtain r2 w2 where wr: "write_all ?q cf w1 = (r2, w2)" by fastforce
    have eff: "cwd w2 = cwd w1 \<and> keeps {?q} (tree w1) (tree w2) \<and>
      (\<exists>k. lookup (tree w2) ?q = Some (File m (take k cf))) \<and>
      (is_ok r2 \<longrightarrow> lookup (tree w2) ?q = Some (File m cf))"
      using write_all_cases [OF wr d(5)] by simp
    have w': "w' = w2" "is_ok res = is_ok r2"
      using assms o wr d(2) by (auto simp: write_containerfile_def Let_def split: sum.splits)
    have "keeps {?q} (tree w) (tree w2)" using d(4) eff keeps_trans by blast
    moreover from this have "extends (tree w) (tree w2)"
      using d(6) eff by (intro keeps_at_file) auto
    moreover obtain k where "lookup (tree w2) ?q = Some (File m (take k cf))" using eff by blast
    ultimately show ?thesis
      using d eff w' by (intro disjI2 exI [of _ d] exI [of _ m] exI [of _ k]) auto
  qed
qed

text \<open>C26. \<open>write_containerfile\<close> never follows a symbolic link: where the entry is one, the call fails
  with a \<open>Path\<close> error that names it and every file of the host is as it was.\<close>
theorem write_containerfile_refuses_symlink:
  assumes "leads_to w ctx d" "lookup (tree w) (d @ [CONTAINERFILE_NAME]) = Some (Symlink t)"
  shows "\<exists>source. fst (write_containerfile ctx cf w) =
      Err (PathError ''Containerfile in the build context'' (join ctx CONTAINERFILE_NAME) source)
    \<and> tree (snd (write_containerfile ctx cf w)) = tree w"
proof -
  obtain r1 w1 where o: "open_truncate True (join ctx CONTAINERFILE_NAME) w = (r1, w1)" by fastforce
  have "d' = d" if "leads_to w ctx d'" for d'
    using leads_to_det assms(1) that by blast
  with open_nofollow_join [OF o plain_CONTAINERFILE_NAME] assms(2)
  have "(\<exists>e. r1 = Err e) \<and> same_files w w1"
    by (metis node.distinct(1) option.distinct(1) option.inject)
  with o show ?thesis by (auto simp: write_containerfile_def Let_def same_files_def)
qed

text \<open>Whatever happens while it writes, \<open>write_containerfile\<close> changes no existing file, link or
  directory of the host but the Containerfile of the context, and when it succeeds that file
  holds the given text whole: nothing of a longer file that was there is left.\<close>
lemma write_containerfile_frame:
  assumes "leads_to w ctx d" "write_containerfile ctx cf w = (res, w')"
  shows "keeps {d @ [CONTAINERFILE_NAME]} (tree w) (tree w') \<and>
    (is_ok res \<longrightarrow> (\<exists>m. lookup (tree w') (d @ [CONTAINERFILE_NAME]) = Some (File m cf)))"
  using write_containerfile_cases [OF assms(2)]
proof
  assume "(\<exists>e. res = Err e) \<and> same_files w w'"
  then show ?thesis by (auto simp: same_files_def)
next
  assume "\<exists>d m k. leads_to w ctx d \<and> cwd w' = cwd w \<and>
       keeps {d @ [CONTAINERFILE_NAME]} (tree w) (tree w') \<and> extends (tree w) (tree w') \<and>
       (lookup (tree w) (d @ [CONTAINERFILE_NAME]) = None \<or>
        (\<exists>m c. lookup (tree w) (d @ [CONTAINERFILE_NAME]) = Some (File m c))) \<and>
       lookup (tree w') (d @ [CONTAINERFILE_NAME]) = Some (File m (take k cf)) \<and>
       (is_ok res \<longrightarrow> take k cf = cf)"
  then obtain d' m k where "leads_to w ctx d'"
    "keeps {d' @ [CONTAINERFILE_NAME]} (tree w) (tree w')"
    "lookup (tree w') (d' @ [CONTAINERFILE_NAME]) = Some (File m (take k cf))"
    "is_ok res \<longrightarrow> take k cf = cf" by blast
  moreover from this have "d' = d" using leads_to_det assms(1) by blast
  ultimately show ?thesis by auto
qed

definition linked_world :: world where
  "linked_world =
     \<lparr>tree = Dir [(''context'', Dir [(''Containerfile'', Symlink ''/etc'')]), (''etc'', File 0x1A4 ''x'')],
      cwd = [], faults = []\<rparr>"

lemma write_containerfile_refuses_symlink_witness:
  "leads_to linked_world ''/context'' [''context''] \<and>
   tree (snd (write_containerfile ''/context'' ''FROM x'' linked_world)) = tree linked_world"
proof -
  have l: "leads_to linked_world ''/context'' [''context'']"
  proof -
    have "walk (tree linked_world) SYMLOOP_MAX (cwd linked_world) (components ''/context'')
      = Ok (SYMLOOP_MAX, [''context''])" by code_simp
    then show ?thesis by (auto simp: leads_to_def)
  qed
  have "lookup (tree linked_world) ([''context''] @ [CONTAINERFILE_NAME]) = Some (Symlink ''/etc'')"
    by code_simp
  from write_containerfile_refuses_symlink [OF l this, of "''FROM x''"] l show ?thesis by blast
qed

lemma sample_leads: "leads_to sample_world ''/context'' [''context'']"
proof -
  have "walk (tree sample_world) SYMLOOP_MAX (cwd sample_world) (components ''/context'')
    = Ok (SYMLOOP_MAX, [''context''])" by code_simp
  then show ?thesis by (auto simp: leads_to_def)
qed

lemma write_containerfile_frame_witness:
  "\<exists>w'. write_containerfile ''/context'' ''FROM x'' sample_world = (Ok (), w') \<and>
     (\<exists>m. lookup (tree w') [''context'', ''Containerfile''] = Some (File m ''FROM x''))"
proof -
  have "fst (write_containerfile ''/context'' ''FROM x'' sample_world) = Ok ()"
    by code_simp
  then obtain w' where w: "write_containerfile ''/context'' ''FROM x'' sample_world = (Ok (), w')"
    by (metis prod.collapse)
  from write_containerfile_frame [OF sample_leads w] w show ?thesis
    by (simp add: CONTAINERFILE_NAME_def)
qed

subsection \<open>The request \<open>build\<close> hands to the runner\<close>

lemma canonicalize_cases:
  assumes "canonicalize p what w = (res, w')"
  shows "same_files w w' \<and> (\<forall>s. res = Ok s \<longrightarrow> (\<exists>q. leads_to w p q \<and> s = path_string q))"
proof -
  obtain r1 w1 where "canonicalize_path p w = (r1, w1)" by fastforce
  with assms canonicalize_path_same [OF this] show ?thesis
    by (cases r1) (auto simp: canonicalize_def resolve_leads_to dest!: canonicalize_path_Ok)
qed

text \<open>The one entry of the context \<open>build\<close> may write, and what it has done to the files when it
  gets as far as \<open>w'\<close>.\<close>

definition containerfile_spot :: "world \<Rightarrow> string \<Rightarrow> string list set" where
  "containerfile_spot w ctx = {d @ [CONTAINERFILE_NAME] | d. leads_to w ctx d}"

definition build_progress :: "world \<Rightarrow> string \<Rightarrow> world \<Rightarrow> bool" where
  "build_progress w ctx w' =
     (keeps (containerfile_spot w ctx) (tree w) (tree w') \<and> cwd w' = cwd w)"

definition containerfile_in :: "world \<Rightarrow> string \<Rightarrow> string \<Rightarrow> world \<Rightarrow> bool" where
  "containerfile_in w ctx cf w' =
     (\<exists>d m. leads_to w ctx d \<and> lookup (tree w') (d @ [CONTAINERFILE_NAME]) = Some (File m cf))"

lemma build_progress_same:
  "build_progress w ctx w' \<Longrightarrow> same_files w' w'' \<Longrightarrow> build_progress w ctx w''"
  by (simp add: build_progress_def same_files_def)

lemma build_progress_keeps:
  "build_progress w ctx w' \<Longrightarrow> keeps {} (tree w') (tree w'') \<Longrightarrow> cwd w'' = cwd w' \<Longrightarrow>
     build_progress w ctx w''"
  using keeps_mono [of "{}" "tree w'" "tree w''" "containerfile_spot w ctx"] keeps_trans
  by (auto simp: build_progress_def)

lemma write_containerfile_progress:
  assumes "write_containerfile ctx cf w = (res, w')"
  shows "build_progress w ctx w'" "is_ok res \<longrightarrow> containerfile_in w ctx cf w'"
    "extends (tree w) (tree w')"
  using write_containerfile_cases [OF assms]
  by (auto simp: build_progress_def containerfile_in_def containerfile_spot_def same_files_def
      dest: leads_to_det elim!: keeps_mono)

definition request_resolved ::
  "string \<Rightarrow> string \<Rightarrow> vm_config \<Rightarrow> string \<Rightarrow> string \<Rightarrow> world \<Rightarrow> vm_build \<Rightarrow> world \<Rightarrow> bool" where
  "request_resolved cf tag config ctx output w req w' =
     ((\<exists>q. leads_to w (rootfs config) q \<and> build_rootfs req = path_string q) \<and>
      (\<exists>q. leads_to w ctx q \<and> build_context req = path_string q) \<and>
      (\<exists>q. leads_to w' (output_parent output) q \<and> output_dir req = path_string q) \<and>
      (\<exists>name. file_name output = Some name \<and> output_filename req = to_string_lossy name) \<and>
      build_tag req = tag \<and> build_cpus req = cpus config \<and> build_memory_mib req = memory_mib config \<and>
      build_nameservers req = nameservers config \<and> containerfile_in w ctx cf w')"

lemma build_written:
  assumes "check_rootfs config w = (Inr u, w1)" "write_containerfile ctx cf w1 = (res, w2)"
  shows "build_progress w ctx w2" "is_ok res \<longrightarrow> containerfile_in w ctx cf w2"
    "extends (tree w) (tree w2)"
  using write_containerfile_progress [OF assms(2)] check_rootfs_same [OF assms(1)]
  by (simp_all add: build_progress_def containerfile_in_def containerfile_spot_def leads_to_same)
    (simp_all add: same_files_def)

lemma build_after_write:
  assumes "build_progress w ctx w2"
    and 3: "canonicalize p1 what1 w2 = (r3, w3)" and 4: "canonicalize p2 what2 w3 = (r4, w4)"
    and 5: "create_dir_all p3 w4 = (r5, w5)" and 6: "canonicalize p4 what3 w5 = (r6, w6)"
  shows "build_progress w ctx w3" "build_progress w ctx w4" "build_progress w ctx w5"
    "build_progress w ctx w6"
proof -
  show p3: "build_progress w ctx w3"
    using assms(1) canonicalize_cases [OF 3] by (blast intro: build_progress_same)
  show p4: "build_progress w ctx w4"
    using p3 canonicalize_cases [OF 4] by (blast intro: build_progress_same)
  show p5: "build_progress w ctx w5"
    using create_dir_all_keeps [OF 5] by (blast intro: build_progress_keeps [OF p4])
  show "build_progress w ctx w6"
    using p5 canonicalize_cases [OF 6] by (blast intro: build_progress_same)
qed

lemma build_request_resolved:
  assumes 1: "check_rootfs config w = (r1, w1)"
    and 2: "write_containerfile ctx cf w1 = (r2, w2)"
    and 3: "canonicalize (rootfs config) what1 w2 = (r3, w3)"
    and 4: "canonicalize ctx what2 w3 = (r4, w4)"
    and 5: "create_dir_all (output_parent output) w4 = (r5, w5)"
    and 6: "canonicalize (output_parent output) what3 w5 = (r6, w6)"
    and ok: "r1 = Inr u1" "r2 = Inr u2" "r3 = Inr dir" "r4 = Inr ctxt" "r6 = Inr dest"
      "file_name output = Some name"
  shows "request_resolved cf tag config ctx output w
    \<lparr>build_rootfs = dir, build_context = ctxt, output_dir = dest,
     output_filename = to_string_lossy name, build_tag = tag, build_cpus = cpus config,
     build_memory_mib = memory_mib config, build_nameservers = nameservers config\<rparr> w6"
proof -
  note written = build_written [OF 1 [unfolded ok(1)] 2]
  have cwd2: "cwd w2 = cwd w" using written(1) by (simp add: build_progress_def)
  obtain q where "stat w (rootfs config) = Ok q"
    using check_rootfs_is_dir [OF 1 [unfolded ok(1)]] by blast
  then obtain r where r: "leads_to w (rootfs config) r"
    by (auto simp: stat_in_def resolve_leads_to split: sum.splits)
  have dir: "dir = path_string r"
    using canonicalize_cases [OF 3] ok(3) leads_to_extends [OF r written(3) cwd2] leads_to_det
    by fastforce
  have same3: "same_files w2 w3" using canonicalize_cases [OF 3] by blast
  obtain d m where d: "leads_to w ctx d"
    "lookup (tree w2) (d @ [CONTAINERFILE_NAME]) = Some (File m cf)"
    using written(2) ok(2) by (auto simp: containerfile_in_def)
  have "leads_to w3 ctx d"
    using leads_to_extends [OF d(1) written(3) cwd2] leads_to_same [OF same3] by blast
  then have ctxt: "ctxt = path_string d"
    using canonicalize_cases [OF 4] ok(4) leads_to_det by fastforce
  have same4: "same_files w2 w4"
    using same3 canonicalize_cases [OF 4] same_files_trans by blast
  have "lookup (tree w5) (d @ [CONTAINERFILE_NAME]) = Some (File m cf)"
    using create_dir_all_keeps [OF 5] d(2) same4 by (auto simp: same_files_def elim: keeps_file)
  moreover have same6: "same_files w5 w6" using canonicalize_cases [OF 6] by blast
  ultimately have cf: "containerfile_in w ctx cf w6"
    using d(1) by (auto simp: containerfile_in_def same_files_def)
  obtain o' where "leads_to w5 (output_parent output) o'" "dest = path_string o'"
    using canonicalize_cases [OF 6] ok(5) by blast
  then have "\<exists>q. leads_to w6 (output_parent output) q \<and> dest = path_string q"
    using leads_to_same [OF same6] by blast
  with r dir d(1) ctxt cf ok(6) show ?thesis by (auto simp: request_resolved_def)
qed

text \<open>\<open>build\<close> up to the runner, which it does not look at.\<close>

definition prepare :: "string \<Rightarrow> string \<Rightarrow> vm_config \<Rightarrow> string \<Rightarrow> string \<Rightarrow> (world, vm_build_error, vm_build) action" where
  "prepare cf tag config ctx output w =
     (case check_rootfs config w of
        (Inl e, w1) \<Rightarrow> (Err e, w1)
      | (Inr _, w1) \<Rightarrow>
     (case write_containerfile ctx cf w1 of
        (Inl e, w2) \<Rightarrow> (Err e, w2)
      | (Inr _, w2) \<Rightarrow>
     (case canonicalize (rootfs config) ''VM rootfs'' w2 of
        (Inl e, w3) \<Rightarrow> (Err e, w3)
      | (Inr dir, w3) \<Rightarrow>
     (case canonicalize ctx ''build context'' w3 of
        (Inl e, w4) \<Rightarrow> (Err e, w4)
      | (Inr ctxt, w4) \<Rightarrow>
     (case file_name output of
        None \<Rightarrow>
          (Err (PathError ''output path has no filename'' output (IoError InvalidInput ''no filename'')), w4)
      | Some name \<Rightarrow>
     (case create_dir_all (output_parent output) w4 of
        (Inl e, w5) \<Rightarrow> (Err (Io e), w5)
      | (Inr _, w5) \<Rightarrow>
     (case canonicalize (output_parent output) ''output directory'' w5 of
        (Inl e, w6) \<Rightarrow> (Err e, w6)
      | (Inr out, w6) \<Rightarrow>
          (Ok \<lparr>build_rootfs = dir, build_context = ctxt, output_dir = out,
               output_filename = to_string_lossy name, build_tag = tag, build_cpus = cpus config,
               build_memory_mib = memory_mib config, build_nameservers = nameservers config\<rparr>, w6))))))))"

lemma build_prepared:
  "build cf tag config runner ctx output w =
     (case prepare cf tag config ctx output w of
        (Inl e, w') \<Rightarrow> (Err e, w')
      | (Inr req, w') \<Rightarrow> runner_run runner req w')"
  by (simp add: build_def prepare_def split: prod.split sum.split option.split)

lemma prepare_effect:
  assumes "prepare cf tag config ctx output w = (prepared, w')"
  shows "build_progress w ctx w' \<and> (\<forall>req. prepared = Ok req \<longrightarrow> request_resolved cf tag config ctx output w req w')"
proof -
  obtain r1 w1 where 1: "check_rootfs config w = (r1, w1)" by fastforce
  obtain r2 w2 where 2: "write_containerfile ctx cf w1 = (r2, w2)" by fastforce
  obtain r3 w3 where 3: "canonicalize (rootfs config) ''VM rootfs'' w2 = (r3, w3)" by fastforce
  obtain r4 w4 where 4: "canonicalize ctx ''build context'' w3 = (r4, w4)" by fastforce
  obtain r5 w5 where 5: "create_dir_all (output_parent output) w4 = (r5, w5)" by fastforce
  obtain r6 w6 where 6: "canonicalize (output_parent output) ''output directory'' w5 = (r6, w6)"
    by fastforce
  note run = assms [unfolded prepare_def 1 2 3 4 5 6 prod.case]
  show ?thesis
  proof (cases r1)
    case (Inl e)
    then show ?thesis using run check_rootfs_same [OF 1] by (auto simp: build_progress_def same_files_def)
  next
    case r1: (Inr u1)
    note p2 = build_written(1) [OF 1 [unfolded r1] 2]
    note p = p2 build_after_write [OF p2 3 4 5 6]
    note resolved = build_request_resolved [OF 1 2 3 4 5 6 r1, where tag = tag]
    show ?thesis
      using run p resolved unfolding r1 by (auto split: sum.splits option.splits)
  qed
qed

lemma build_request:
  "\<exists>prepared w'.
     (\<forall>runner. build cf tag config runner ctx output w =
        (case prepared of Inl e \<Rightarrow> (Err e, w') | Inr req \<Rightarrow> runner_run runner req w')) \<and>
     keeps (containerfile_spot w ctx) (tree w) (tree w') \<and>
     (\<forall>req. prepared = Ok req \<longrightarrow> request_resolved cf tag config ctx output w req w')"
proof -
  obtain prepared w' where p: "prepare cf tag config ctx output w = (prepared, w')" by fastforce
  show ?thesis
    using prepare_effect [OF p] by (intro exI [of _ prepared] exI [of _ w'])
      (simp add: build_prepared p build_progress_def split: sum.split)
qed

text \<open>C7. What \<open>build\<close> does before the runner does not depend on the runner: it either fails on its
  own, or hands the runner one request. That request names the rootfs, the context and the
  output directory by the canonical paths they lead to, the file name of the output, and the tag
  and limits of the configuration, and by then the Containerfile is whole in the context. In both
  cases no file of the host but the Containerfile has been changed.\<close>
theorem build_hands_one_request:
  "\<exists>prepared w'.
     (\<forall>runner. build cf tag config runner ctx output w =
        (case prepared of Inl e \<Rightarrow> (Err e, w') | Inr req \<Rightarrow> runner_run runner req w')) \<and>
     keeps (containerfile_spot w ctx) (tree w) (tree w') \<and>
     (\<forall>req. prepared = Ok req \<longrightarrow> request_resolved cf tag config ctx output w req w')"
  by (rule build_request)

text \<open>A runner that accepts every request.\<close>

definition accepting_runner :: vm_runner where
  "accepting_runner = \<lparr>runner_run = (\<lambda>req w. (Ok (), w)), runner_check_supported = Ok ()\<rparr>"

lemma build_hands_one_request_witness:
  "\<exists>req w'. request_resolved ''FROM x'' ''t'' sample_config ''/context'' ''/x.img'' sample_world req w'"
proof -
  obtain prepared w' where
    run: "build ''FROM x'' ''t'' sample_config accepting_runner ''/context'' ''/x.img'' sample_world =
      (case prepared of Inl e \<Rightarrow> (Err e, w') | Inr req \<Rightarrow> runner_run accepting_runner req w')"
    and resolved: "\<forall>req. prepared = Ok req \<longrightarrow>
      request_resolved ''FROM x'' ''t'' sample_config ''/context'' ''/x.img'' sample_world req w'"
    using build_hands_one_request [of "''FROM x''" "''t''" sample_config "''/context''" "''/x.img''"
        sample_world] by blast
  have "fst (build ''FROM x'' ''t'' sample_config accepting_runner ''/context'' ''/x.img'' sample_world) = Ok ()"
    by code_simp
  with run obtain req where "prepared = Ok req" by (cases prepared) simp_all
  with resolved show ?thesis by blast
qed

text \<open>C40. Without I/O faults, a rootfs that is no directory, or whose helper is no regular file or not
  executable, ends the build with an error before anything on the host is written and before the
  runner is asked.\<close>
theorem build_rejects_rootfs_first:
  assumes "no_faults w" "\<not> usable_rootfs w (rootfs config)"
  shows "\<exists>e w'. (\<forall>runner. build cf tag config runner ctx output w = (Err e, w')) \<and> tree w' = tree w"
proof -
  obtain res w' where c: "check_rootfs config w = (res, w')" by fastforce
  with assms check_rootfs_accepts [of w config] obtain e where "res = Err e"
    by (cases res) auto
  with c check_rootfs_same [OF c] show ?thesis by (auto simp: build_def same_files_def)
qed

lemma build_rejects_rootfs_first_witness:
  "\<exists>e w'. build ''FROM x'' ''t'' sample_config accepting_runner ''/context'' ''/x.img'' linked_world = (Err e, w')
     \<and> tree w' = tree linked_world"
proof -
  have "no_faults linked_world" by (simp add: no_faults_def linked_world_def)
  moreover have "\<not> is_ok (stat linked_world (rootfs sample_config))" by code_simp
  then have "\<not> usable_rootfs linked_world (rootfs sample_config)"
    by (auto simp: usable_rootfs_def)
  ultimately show ?thesis using build_rejects_rootfs_first by blast
qed

subsection \<open>Where a VM can be entered\<close>

text \<open>On macOS \<open>check_single_threaded\<close> lets a process go on exactly when the kernel reported
  its task information whole, with at most one thread; elsewhere there is nothing to check.\<close>
lemma check_single_threaded_ok:
  "is_ok (check_single_threaded macos info_size info) \<longleftrightarrow>
     \<not> macos \<or> 0 \<le> pid_ret info \<and> pid_ret info = info_size \<and> pti_threadnum info \<le> 1"
  by (auto simp: check_single_threaded_def host_thread_count_def)

lemma check_single_threaded_ok_witness:
  "is_ok (check_single_threaded True 96 \<lparr>pid_ret = 96, pti_threadnum = 1, pid_errno = not_found\<rparr>) \<and>
   \<not> is_ok (check_single_threaded True 96 \<lparr>pid_ret = 96, pti_threadnum = 2, pid_errno = not_found\<rparr>)"
  by (simp add: check_single_threaded_ok)

text \<open>Where libkrun is not compiled in, the runner answers with the reason and never reaches its
  \<open>unreachable!\<close>; the reason names the platform first and the missing feature only where the
  platform is the right one.\<close>
lemma run_without_libkrun_total:
  assumes "\<not> libkrun_available t"
  shows "\<exists>reason. run_without_libkrun t = Some (Err (Unsupported reason)) \<and>
    (reason = ''libkrun requires macOS on Apple Silicon'' \<longleftrightarrow> \<not> (os_macos t \<and> arch_aarch64 t))"
  using assms
  by (simp add: run_without_libkrun_def krun_check_supported_def libkrun_available_def)

lemma run_without_libkrun_total_witness:
  "\<not> libkrun_available \<lparr>feature_krun = False, os_macos = True, arch_aarch64 = True\<rparr> \<and>
   (\<exists>reason. run_without_libkrun \<lparr>feature_krun = False, os_macos = True, arch_aarch64 = True\<rparr> =
      Some (Err (Unsupported reason)))"
  using run_without_libkrun_total [of "\<lparr>feature_krun = False, os_macos = True, arch_aarch64 = True\<rparr>"]
  by (auto simp: libkrun_available_def)

end
