(* ===== verification/Krun.thy ===== *)
theory Krun
  imports VmImageBuilder
begin

text \<open>
  \<open>crates/vm-image-builder/src/krun.rs\<close>: the strings handed to libkrun, the calls the forked
  child makes, and how the parent reads the child's end. libkrun is a parameter (\<open>libkrun\<close>):
  what a call returns may depend on every call before it, and \<open>krun_start_enter\<close> either returns
  or ends the process with the workload's code. \<open>fork\<close>, \<open>waitpid\<close> and the macros on a wait
  status are parameters too.
\<close>

definition EXIT_SETUP_FAILED :: int where
  "EXIT_SETUP_FAILED = 119"

definition EXIT_ENTER_FAILED :: int where
  "EXIT_ENTER_FAILED = 118"

definition KRUN_LOG_LEVEL_TRACE :: u32 where
  "KRUN_LOG_LEVEL_TRACE = 5"

definition VM_PATH :: string where
  "VM_PATH = ''PATH=/bin:/usr/bin:/usr/local/bin:/sbin:/usr/sbin''"

subsection \<open>The strings\<close>

definition nul :: char where
  "nul = CHR 0x00"

definition cstring :: "string \<Rightarrow> string \<Rightarrow> (vm_build_error, string) result" where
  "cstring s what =
     (if nul \<in> set s then Err (Io (IoError InvalidInput (what @ '' contains an interior NUL byte'')))
      else Ok s)"

definition cstring_path :: "string \<Rightarrow> string \<Rightarrow> (vm_build_error, string) result" where
  "cstring_path path what =
     and_then
       (ok_or (PathError what path
          (IoError InvalidInput ''path is not valid UTF-8 and cannot be passed to libkrun''))
          (to_str path))
       (\<lambda>s. map_err (\<lambda>_. PathError what path
            (IoError InvalidInput ''path contains an interior NUL byte''))
          (cstring s what))"

record args =
  arg_rootfs :: string
  arg_context :: string
  arg_output_dir :: string
  arg_output_filename :: string
  arg_containerfile :: string
  arg_tag :: string
  arg_tag_root :: string
  arg_tag_context :: string
  arg_tag_output :: string
  arg_workdir :: string
  arg_exec :: string
  arg_path_env :: string
  arg_dns_env :: "string option"

definition dns_env :: "vm_build \<Rightarrow> (vm_build_error, string option) result" where
  "dns_env b =
     (case dns_env_value b of
        None \<Rightarrow> Ok None
      | Some value \<Rightarrow>
          and_then (cstring (VM_DNS_ENV @ ''='' @ value) ''VM nameservers'') (\<lambda>s. Ok (Some s)))"

definition args_new :: "vm_build \<Rightarrow> (vm_build_error, args) result" where
  "args_new b =
     and_then (cstring_path (build_rootfs b) ''VM rootfs'') (\<lambda>dir.
     and_then (cstring_path (build_context b) ''build context'') (\<lambda>ctxt.
     and_then (cstring_path (output_dir b) ''output directory'') (\<lambda>out.
     and_then (cstring (output_filename b) ''output filename'') (\<lambda>filename.
     and_then (cstring (containerfile_vm_path b) ''Containerfile path'') (\<lambda>containerfile.
     and_then (cstring (build_tag b) ''image tag'') (\<lambda>tag.
     and_then (cstring TAG_ROOT ''root tag'') (\<lambda>troot.
     and_then (cstring TAG_CONTEXT ''context tag'') (\<lambda>tcontext.
     and_then (cstring TAG_OUTPUT ''output tag'') (\<lambda>toutput.
     and_then (cstring ''/'' ''workdir'') (\<lambda>workdir.
     and_then (cstring VM_BUILD_SCRIPT ''build helper'') (\<lambda>exec.
     and_then (cstring VM_PATH ''PATH'') (\<lambda>path.
     and_then (dns_env b) (\<lambda>dns.
       Ok \<lparr>arg_rootfs = dir, arg_context = ctxt, arg_output_dir = out,
           arg_output_filename = filename, arg_containerfile = containerfile, arg_tag = tag,
           arg_tag_root = troot, arg_tag_context = tcontext, arg_tag_output = toutput,
           arg_workdir = workdir, arg_exec = exec, arg_path_env = path, arg_dns_env = dns\<rparr>)))))))))))))"

subsection \<open>The calls of the child\<close>

text \<open>The arrays of \<open>krun_set_exec\<close> end at their first null pointer (\<open>None\<close>).\<close>

datatype krun_call =
    SetLogLevel u32
  | CreateCtx
  | SetVmConfig u32 u8 u32
  | AddVirtiofs u32 string string
  | SetWorkdir u32 string
  | SetExec u32 string "string option list" "string option list"
  | StartEnter u32

datatype 'a ended = Returned 'a | Exited int

record libkrun =
  krun_ret :: "krun_call list \<Rightarrow> krun_call \<Rightarrow> int"
  krun_enter :: "krun_call list \<Rightarrow> krun_call \<Rightarrow> int ended"

definition krun_argv :: "args \<Rightarrow> string option list" where
  "krun_argv a = [Some (arg_containerfile a), Some (arg_tag a), Some (arg_output_filename a), None]"

definition krun_envp :: "args \<Rightarrow> string option list" where
  "krun_envp a = [Some (arg_path_env a), arg_dns_env a, None]"

definition krun_steps :: "u32 \<Rightarrow> args \<Rightarrow> u8 \<Rightarrow> u32 \<Rightarrow> (string \<times> krun_call) list" where
  "krun_steps ctx a vcpus mem =
     [(''krun_set_vm_config'', SetVmConfig ctx vcpus mem),
      (''krun_add_virtiofs(root)'', AddVirtiofs ctx (arg_tag_root a) (arg_rootfs a)),
      (''krun_add_virtiofs(context)'', AddVirtiofs ctx (arg_tag_context a) (arg_context a)),
      (''krun_add_virtiofs(output)'', AddVirtiofs ctx (arg_tag_output a) (arg_output_dir a)),
      (''krun_set_workdir'', SetWorkdir ctx (arg_workdir a)),
      (''krun_set_exec'', SetExec ctx (arg_exec a) (krun_argv a) (krun_envp a))]"

text \<open>The array of steps is evaluated whole before the first return value is looked at.\<close>

fun issue :: "libkrun \<Rightarrow> krun_call list \<Rightarrow> (string \<times> krun_call) list \<Rightarrow> (string \<times> int) list \<times> krun_call list" where
  "issue api log [] = ([], log)"
| "issue api log ((name, c) # cs) =
     (case issue api (log @ [c]) cs of
        (rets, log') \<Rightarrow> ((name, krun_ret api log c) # rets, log'))"

definition krun_message :: "string \<Rightarrow> int \<Rightarrow> string" where
  "krun_message call ret = ''libkrun: '' @ call @ '' failed (code '' @ fmt_int ret @ '')''"

text \<open>\<open>enter_vm\<close> yields how it ended, the calls it made and what it wrote to standard error.\<close>

definition enter_vm :: "bool \<Rightarrow> libkrun \<Rightarrow> args \<Rightarrow> u8 \<Rightarrow> u32 \<Rightarrow> int ended \<times> krun_call list \<times> string list" where
  "enter_vm debug api a vcpus mem =
     (let log0 = (if debug then [SetLogLevel KRUN_LOG_LEVEL_TRACE] else []);
          ctx = krun_ret api log0 CreateCtx;
          log1 = log0 @ [CreateCtx] in
      if ctx < 0 then (Returned EXIT_SETUP_FAILED, log1, [krun_message ''krun_create_ctx'' ctx])
      else
        (let ctx = word_of_int ctx in
         case issue api log1 (krun_steps ctx a vcpus mem) of
           (rets, log2) \<Rightarrow>
             (case find (\<lambda>(call, ret). ret < 0) rets of
                Some (call, ret) \<Rightarrow> (Returned EXIT_SETUP_FAILED, log2, [krun_message call ret])
              | None \<Rightarrow>
                  (case krun_enter api log2 (StartEnter ctx) of
                     Exited code \<Rightarrow> (Exited code, log2 @ [StartEnter ctx], [])
                   | Returned ret \<Rightarrow>
                       (Returned EXIT_ENTER_FAILED, log2 @ [StartEnter ctx],
                        [krun_message ''krun_start_enter'' ret])))))"

subsection \<open>The parent\<close>

text \<open>\<open>waits n\<close> is what the n-th \<open>waitpid\<close> gives; the loop may never end, which is \<open>None\<close>.\<close>

partial_function (option) wait_loop ::
  "(nat \<Rightarrow> (io_error, int) result) \<Rightarrow> nat \<Rightarrow> (vm_build_error, int) result option" where
  "wait_loop waits n =
     (case waits n of
        Inl err \<Rightarrow> if io_kind_of err = Interrupted then wait_loop waits (Suc n) else Some (Err (Io err))
      | Inr status \<Rightarrow> Some (Ok status))"

record wait_macros =
  wifsignaled :: "int \<Rightarrow> bool"
  wexitstatus :: "int \<Rightarrow> int"

definition child_outcome :: "wait_macros \<Rightarrow> int \<Rightarrow> (vm_build_error, unit) result" where
  "child_outcome macros status =
     (if wifsignaled macros status then Err (Failed None)
      else
        (let code = wexitstatus macros status in
         if code = 0 then Ok ()
         else if code = EXIT_SETUP_FAILED then Err (Krun ''krun_* configuration'' (- 1))
         else if code = EXIT_ENTER_FAILED then Err (Krun ''krun_start_enter'' (- 1))
         else Err (Failed (Some code))))"

definition wait_for ::
  "wait_macros \<Rightarrow> (nat \<Rightarrow> (io_error, int) result) \<Rightarrow> (vm_build_error, unit) result option" where
  "wait_for macros waits =
     (case wait_loop waits 0 of
        None \<Rightarrow> None
      | Some (Inl e) \<Rightarrow> Some (Err e)
      | Some (Inr status) \<Rightarrow> Some (child_outcome macros status))"

text \<open>What \<open>fork\<close> gave: an error, the child's zero or the pid the parent gets.\<close>

datatype forked = ForkFailed io_error | InChild | InParent

text \<open>How a process that called \<open>run\<close> goes on: back in the caller, or ended with a code.\<close>

datatype process_end =
    Came_back "(vm_build_error, unit) result"
  | Process_exit int

fun child_code :: "int ended \<Rightarrow> int" where
  "child_code (Returned code) = code"
| "child_code (Exited code) = code"

record krun_host =
  host_debug :: bool
  host_api :: libkrun
  host_info_size :: int
  host_info :: pidinfo
  host_macros :: wait_macros
  host_waits :: "nat \<Rightarrow> (io_error, int) result"

definition krun_run :: "krun_host \<Rightarrow> forked \<Rightarrow> vm_build \<Rightarrow> process_end option" where
  "krun_run h fork b =
     (case args_new b of
        Inl e \<Rightarrow> Some (Came_back (Err e))
      | Inr a \<Rightarrow>
          (case check_single_threaded True (host_info_size h) (host_info h) of
             Inl e \<Rightarrow> Some (Came_back (Err e))
           | Inr _ \<Rightarrow>
               (case fork of
                  ForkFailed e \<Rightarrow> Some (Came_back (Err (Io e)))
                | InChild \<Rightarrow>
                    Some (Process_exit (child_code (fst (enter_vm (host_debug h) (host_api h) a
                      (build_cpus b) (build_memory_mib b)))))
                | InParent \<Rightarrow> map_option Came_back (wait_for (host_macros h) (host_waits h)))))"

subsection \<open>Which requests can be passed on\<close>

lemma cstring_Ok [simp]: "cstring s what = Ok t \<longleftrightarrow> nul \<notin> set s \<and> t = s"
  by (auto simp: cstring_def)

lemma cstring_path_Ok [simp]: "cstring_path p what = Ok t \<longleftrightarrow> valid_utf8 p \<and> nul \<notin> set p \<and> t = p"
  by (auto simp: cstring_path_def to_str_def ok_or_def)

lemma nul_free_constants [simp]:
  "nul \<notin> set TAG_ROOT" "nul \<notin> set TAG_CONTEXT" "nul \<notin> set TAG_OUTPUT" "nul \<notin> set VM_BUILD_SCRIPT"
  "nul \<notin> set VM_PATH" "nul \<notin> set VM_DNS_ENV" "nul \<notin> set ''/''" "nul \<notin> set (containerfile_vm_path b)"
  by (simp_all add: nul_def TAG_ROOT_def TAG_CONTEXT_def TAG_OUTPUT_def VM_BUILD_SCRIPT_def VM_PATH_def
      VM_DNS_ENV_def containerfile_vm_path_def CONTAINERFILE_NAME_def)

lemma nul_not_slash [simp]: "nul \<noteq> CHR ''/''"
  by (simp add: nul_def)

lemma nul_free_addrs: "nul \<notin> set (join_addrs addrs)"
proof -
  have "list_all (\<lambda>c. c \<noteq> nul) (ip_to_string ip)" for ip
    using ip_to_string_addr_char [of ip]
    by (auto simp: list_all_iff addr_char_def nul_def to_digit_def)
  then have "list_all (\<lambda>c. c \<noteq> nul) (join_addrs addrs)"
    unfolding join_addrs_def by (intro join_with_all) (simp_all add: nul_def list_all_iff)
  then show ?thesis by (auto simp: list_all_iff)
qed

lemma dns_env_Ok: "dns_env b = Ok (map_option (\<lambda>v. VM_DNS_ENV @ ''='' @ v) (dns_env_value b))"
  using nul_free_addrs
  by (auto simp: dns_env_def dns_env_value_def cstring_def) (simp_all add: nul_def)

text \<open>What the request must meet, and the strings it then becomes.\<close>

definition passable :: "vm_build \<Rightarrow> bool" where
  "passable b =
     (list_all (\<lambda>s. valid_utf8 s \<and> nul \<notin> set s) [build_rootfs b, build_context b, output_dir b] \<and>
      list_all (\<lambda>s. nul \<notin> set s) [output_filename b, build_tag b])"

definition args_of :: "vm_build \<Rightarrow> args" where
  "args_of b =
     \<lparr>arg_rootfs = build_rootfs b, arg_context = build_context b, arg_output_dir = output_dir b,
      arg_output_filename = output_filename b, arg_containerfile = containerfile_vm_path b,
      arg_tag = build_tag b, arg_tag_root = TAG_ROOT, arg_tag_context = TAG_CONTEXT,
      arg_tag_output = TAG_OUTPUT, arg_workdir = ''/'', arg_exec = VM_BUILD_SCRIPT,
      arg_path_env = VM_PATH,
      arg_dns_env = map_option (\<lambda>v. VM_DNS_ENV @ ''='' @ v) (dns_env_value b)\<rparr>"

lemma args_new_eq: "args_new b = Ok a \<longleftrightarrow> passable b \<and> a = args_of b"
  by (auto simp: args_new_def and_then_eq_Inr dns_env_Ok passable_def args_of_def)

text \<open>\<open>Args::new\<close> accepts exactly the requests whose three paths are UTF-8 and whose paths,
  file name and tag hold no NUL byte; the constants, the Containerfile path and the
  nameservers never make it fail, and what it accepts reaches libkrun byte for byte.\<close>
lemma args_new_accepts:
  "args_new b = Ok a \<longleftrightarrow> passable b \<and> a = args_of b"
  by (rule args_new_eq)

subsection \<open>Which calls are made\<close>

lemma issue_spec:
  "issue api log cs =
     (map (\<lambda>i. (fst (cs ! i), krun_ret api (log @ take i (map snd cs)) (snd (cs ! i)))) [0..<length cs],
      log @ map snd cs)"
proof (induction cs arbitrary: log)
  case (Cons c cs)
  then show ?case by (cases c) (simp del: upt_Suc add: map_upt_Suc)
qed simp

definition krun_prologue :: "bool \<Rightarrow> krun_call list" where
  "krun_prologue debug = (if debug then [SetLogLevel KRUN_LOG_LEVEL_TRACE] else [])"

definition krun_ctx :: "bool \<Rightarrow> libkrun \<Rightarrow> int" where
  "krun_ctx debug api = krun_ret api (krun_prologue debug) CreateCtx"

text \<open>All six configuration calls return a non-negative code.\<close>

definition krun_configured :: "bool \<Rightarrow> libkrun \<Rightarrow> args \<Rightarrow> u8 \<Rightarrow> u32 \<Rightarrow> bool" where
  "krun_configured debug api a vcpus mem =
     (let calls = map snd (krun_steps (word_of_int (krun_ctx debug api)) a vcpus mem) in
      0 \<le> krun_ctx debug api \<and>
      (\<forall>i<6. 0 \<le> krun_ret api (krun_prologue debug @ [CreateCtx] @ take i calls) (calls ! i)))"

lemma length_krun_steps [simp]: "length (krun_steps ctx a vcpus mem) = 6"
  by (simp add: krun_steps_def)

lemma enter_vm_cases:
  fixes debug api a vcpus mem
  defines "ctx \<equiv> word_of_int (krun_ctx debug api)"
  defines "log \<equiv> krun_prologue debug @ [CreateCtx] @ map snd (krun_steps ctx a vcpus mem)"
  shows "if krun_ctx debug api < 0 then
      fst (enter_vm debug api a vcpus mem) = Returned EXIT_SETUP_FAILED \<and>
      fst (snd (enter_vm debug api a vcpus mem)) = krun_prologue debug @ [CreateCtx]
    else if \<not> krun_configured debug api a vcpus mem then
      fst (enter_vm debug api a vcpus mem) = Returned EXIT_SETUP_FAILED \<and>
      fst (snd (enter_vm debug api a vcpus mem)) = log
    else
      fst (enter_vm debug api a vcpus mem) =
        (case krun_enter api log (StartEnter ctx) of Exited code \<Rightarrow> Exited code
         | Returned ret \<Rightarrow> Returned EXIT_ENTER_FAILED) \<and>
      fst (snd (enter_vm debug api a vcpus mem)) = log @ [StartEnter ctx]"
proof -
  let ?steps = "krun_steps ctx a vcpus mem"
  define rets where "rets = map (\<lambda>i. (fst (?steps ! i),
    krun_ret api (krun_prologue debug @ [CreateCtx] @ take i (map snd ?steps)) (snd (?steps ! i)))) [0..<6]"
  have issue: "issue api (krun_prologue debug @ [CreateCtx]) ?steps = (rets, log)"
    by (simp add: issue_spec rets_def log_def del: upt_conv_Cons)
  have find: "find (\<lambda>(call, ret). ret < 0) rets = None \<longleftrightarrow> krun_configured debug api a vcpus mem"
    if "0 \<le> krun_ctx debug api"
    using that unfolding find_None_iff rets_def krun_configured_def ctx_def [symmetric] Let_def
    by (auto simp: not_less simp del: upt_conv_Cons)
  show ?thesis
  proof (cases "krun_ctx debug api < 0")
    case True
    then show ?thesis
      by (simp add: enter_vm_def Let_def krun_prologue_def [symmetric] krun_ctx_def [symmetric])
  next
    case False
    then have "enter_vm debug api a vcpus mem =
      (case find (\<lambda>(call, ret). ret < 0) rets of
         Some (call, ret) \<Rightarrow> (Returned EXIT_SETUP_FAILED, log, [krun_message call ret])
       | None \<Rightarrow>
          (case krun_enter api log (StartEnter ctx) of
             Exited code \<Rightarrow> (Exited code, log @ [StartEnter ctx], [])
           | Returned ret \<Rightarrow> (Returned EXIT_ENTER_FAILED, log @ [StartEnter ctx],
              [krun_message ''krun_start_enter'' ret])))"
      using issue unfolding ctx_def
      by (simp add: enter_vm_def Let_def krun_prologue_def [symmetric] krun_ctx_def [symmetric])
    with False find show ?thesis
      by (cases "find (\<lambda>(call, ret). ret < 0) rets")
        (auto simp del: find_None_iff split: ended.split)
  qed
qed

text \<open>C32. The child makes the calls of libkrun in one fixed order. A context that cannot be made is the
  last call; otherwise all six configuration calls are made, in order, even after one has
  failed, and \<open>krun_start_enter\<close> follows exactly when the context and all six succeeded.\<close>
theorem enter_vm_calls:
  "fst (snd (enter_vm debug api a vcpus mem)) =
     krun_prologue debug @ [CreateCtx] @
     (if krun_ctx debug api < 0 then []
      else map snd (krun_steps (word_of_int (krun_ctx debug api)) a vcpus mem) @
        (if krun_configured debug api a vcpus mem
         then [StartEnter (word_of_int (krun_ctx debug api))] else []))"
  using enter_vm_cases [of debug api a vcpus mem] by (simp split: if_splits)

subsection \<open>How the build ends\<close>

text \<open>The first \<open>waitpid\<close> that is not merely interrupted is the n-th.\<close>

definition interrupted :: "(io_error, int) result \<Rightarrow> bool" where
  "interrupted r = (case r of Inl e \<Rightarrow> io_kind_of e = Interrupted | Inr _ \<Rightarrow> False)"

definition first_answer :: "(nat \<Rightarrow> (io_error, int) result) \<Rightarrow> nat \<Rightarrow> bool" where
  "first_answer waits n = (list_all (\<lambda>i. interrupted (waits i)) [0..<n] \<and> \<not> interrupted (waits n))"

lemma wait_loop_answer:
  "\<lbrakk>\<forall>i. k \<le> i \<longrightarrow> i < n \<longrightarrow> interrupted (waits i); \<not> interrupted (waits n); k \<le> n\<rbrakk> \<Longrightarrow>
     wait_loop waits k = Some (map_err Io (waits n))"
proof (induction "n - k" arbitrary: k)
  case 0
  then show ?case
    by (subst wait_loop.simps) (auto simp: interrupted_def split: sum.splits)
next
  case (Suc d)
  then have "interrupted (waits k)" by simp
  moreover have "wait_loop waits (Suc k) = Some (map_err Io (waits n))" using Suc by simp
  ultimately show ?case
    by (subst wait_loop.simps) (auto simp: interrupted_def split: sum.splits)
qed

lemma wait_for_answer:
  assumes "first_answer waits n"
  shows "wait_for macros waits =
    Some (and_then (map_err Io (waits n)) (child_outcome macros))"
proof -
  have "wait_loop waits 0 = Some (map_err Io (waits n))"
    using assms by (intro wait_loop_answer) (auto simp: first_answer_def list_all_iff)
  then show ?thesis by (cases "waits n") (simp_all add: wait_for_def)
qed

lemma wait_loop_Some:
  assumes "wait_loop waits k = Some r"
  shows "\<exists>n. \<not> interrupted (waits n)"
  using assms
proof (rule wait_loop.raw_induct [where P = "\<lambda>waits k r. \<exists>n. \<not> interrupted (waits n)", rotated])
  fix loop :: "(nat \<Rightarrow> (io_error, int) result) \<Rightarrow> nat \<Rightarrow> (vm_build_error, int) result option"
    and waits k r
  assume step: "\<And>waits k r. loop waits k = Some r \<Longrightarrow> \<exists>n. \<not> interrupted (waits n)"
    and "(case waits k of Inl err \<Rightarrow> if io_kind_of err = Interrupted then loop waits (Suc k)
           else Some (Err (Io err)) | Inr status \<Rightarrow> Some (Ok status)) = Some r"
  then have "loop waits (Suc k) = Some r \<or> \<not> interrupted (waits k)"
    by (auto simp: interrupted_def split: sum.splits if_splits)
  with step show "\<exists>n. \<not> interrupted (waits n)" by blast
qed

text \<open>C33. \<open>wait_for\<close> survives any number of interruptions: it returns as soon as \<open>waitpid\<close> gives
  something else, with that answer's meaning, and it loops for ever exactly when every call is
  interrupted.\<close>
theorem wait_for_returns:
  "wait_for macros waits \<noteq> None \<longleftrightarrow> (\<exists>n. \<not> interrupted (waits n))"
proof
  assume r: "wait_for macros waits \<noteq> None"
  then show "\<exists>n. \<not> interrupted (waits n)"
    using wait_loop_Some by (fastforce simp: wait_for_def split: option.splits)
next
  assume "\<exists>n. \<not> interrupted (waits n)"
  then obtain n where "\<not> interrupted (waits n)" "\<forall>i<n. interrupted (waits i)"
    using exists_least_iff [of "\<lambda>n. \<not> interrupted (waits n)"] by blast
  then have "first_answer waits n" by (auto simp: first_answer_def list_all_iff)
  then show "wait_for macros waits \<noteq> None" by (simp add: wait_for_answer)
qed

text \<open>The parent reads the end of its child off the status: it exited by itself with this code,
  or a signal ended it.\<close>

definition reports_exit :: "krun_host \<Rightarrow> int \<Rightarrow> bool" where
  "reports_exit h code =
     (\<exists>n status. first_answer (host_waits h) n \<and> host_waits h n = Ok status \<and>
        \<not> wifsignaled (host_macros h) status \<and> wexitstatus (host_macros h) status = code mod 256)"

definition reports_signal :: "krun_host \<Rightarrow> bool" where
  "reports_signal h =
     (\<exists>n status. first_answer (host_waits h) n \<and> host_waits h n = Ok status \<and>
        wifsignaled (host_macros h) status)"

definition vm_end :: "krun_host \<Rightarrow> vm_build \<Rightarrow> int ended" where
  "vm_end h b = fst (enter_vm (host_debug h) (host_api h) (args_of b) (build_cpus b) (build_memory_mib b))"

text \<open>The result the caller of \<open>run\<close> should see for the end of the VM.\<close>

fun end_result :: "int ended \<Rightarrow> (vm_build_error, unit) result" where
  "end_result (Exited code) = (if code mod 256 = 0 then Ok () else Err (Failed (Some (code mod 256))))"
| "end_result (Returned code) =
     Err (Krun (if code = EXIT_SETUP_FAILED then ''krun_* configuration'' else ''krun_start_enter'') (- 1))"

lemma enter_vm_returned:
  "vm_end h b = Returned c \<Longrightarrow> c = EXIT_SETUP_FAILED \<or> c = EXIT_ENTER_FAILED"
  using enter_vm_cases [of "host_debug h" "host_api h" "args_of b" "build_cpus b" "build_memory_mib b"]
  by (auto simp: vm_end_def split: if_splits ended.splits)

lemma krun_run_child:
  assumes "passable b" "is_ok (check_single_threaded True (host_info_size h) (host_info h))"
  shows "krun_run h InChild b = Some (Process_exit (child_code (vm_end h b)))"
    and "krun_run h InParent b = map_option Came_back (wait_for (host_macros h) (host_waits h))"
proof -
  have "args_new b = Ok (args_of b)" using assms(1) by (simp add: args_new_eq)
  with assms(2) show "krun_run h InChild b = Some (Process_exit (child_code (vm_end h b)))"
    "krun_run h InParent b = map_option Came_back (wait_for (host_macros h) (host_waits h))"
    by (auto simp: krun_run_def vm_end_def is_ok_iff)
qed

lemma krun_run_parent:
  assumes "passable b" "is_ok (check_single_threaded True (host_info_size h) (host_info h))"
    "reports_exit h code"
  shows "\<exists>status. krun_run h InParent b = Some (Came_back (child_outcome (host_macros h) status)) \<and>
    \<not> wifsignaled (host_macros h) status \<and> wexitstatus (host_macros h) status = code mod 256"
  using assms(3) wait_for_answer unfolding reports_exit_def krun_run_child(2) [OF assms(1,2)]
  by fastforce

lemma krun_run_signalled:
  assumes "passable b" "is_ok (check_single_threaded True (host_info_size h) (host_info h))"
    "reports_signal h"
  shows "krun_run h InParent b = Some (Came_back (Err (Failed None)))"
  using assms(3) wait_for_answer unfolding reports_signal_def krun_run_child(2) [OF assms(1,2)]
  by (fastforce simp: child_outcome_def)

lemma krun_run_exited:
  assumes "passable b" "is_ok (check_single_threaded True (host_info_size h) (host_info h))"
    and "krun_run h InChild b = Some (Process_exit code)" "reports_exit h code"
    and "vm_end h b \<noteq> Exited code \<or> code mod 256 \<notin> {EXIT_SETUP_FAILED, EXIT_ENTER_FAILED}"
  shows "krun_run h InParent b = Some (Came_back (end_result (vm_end h b)))"
proof -
  have code: "code = child_code (vm_end h b)"
    using assms(3) krun_run_child(1) [OF assms(1,2)] by simp
  obtain status where "krun_run h InParent b = Some (Came_back (child_outcome (host_macros h) status))"
    "\<not> wifsignaled (host_macros h) status" "wexitstatus (host_macros h) status = code mod 256"
    using krun_run_parent [OF assms(1,2,4)] by blast
  moreover have "child_outcome (host_macros h) status = end_result (vm_end h b)"
    using calculation code assms(5) enter_vm_returned [of h b]
    by (cases "vm_end h b") (auto simp: child_outcome_def EXIT_SETUP_FAILED_def EXIT_ENTER_FAILED_def)
  ultimately show ?thesis by simp
qed

text \<open>C9. The fork is transparent. When the parent's \<open>waitpid\<close> reports the code the child ended with,
  \<open>run\<close> gives its caller what became of the VM: success exactly for a workload that ended with
  0, the workload's code otherwise, and a libkrun error when the VM could not be configured or
  entered - provided the workload does not end with one of the two codes reserved for the
  child. When \<open>waitpid\<close> reports that a signal ended the child, the caller gets a failure without a code.\<close>
theorem krun_run_transparent:
  assumes "passable b" "is_ok (check_single_threaded True (host_info_size h) (host_info h))"
  shows "(krun_run h InChild b = Some (Process_exit code) \<and> reports_exit h code \<and>
        (vm_end h b \<noteq> Exited code \<or> code mod 256 \<notin> {EXIT_SETUP_FAILED, EXIT_ENTER_FAILED}) \<longrightarrow>
      krun_run h InParent b = Some (Came_back (end_result (vm_end h b)))) \<and>
    (reports_signal h \<longrightarrow> krun_run h InParent b = Some (Came_back (Err (Failed None))))"
  using krun_run_exited [OF assms] krun_run_signalled [OF assms] by blast

text \<open>C34. The two reserved codes are not kept apart from the workload's: a workload that itself ends
  with 119 is reported as a VM that could not be configured, and one that ends with 118 as a VM that could
  not be started.\<close>
theorem workload_code_mistaken:
  assumes "passable b" "is_ok (check_single_threaded True (host_info_size h) (host_info h))"
    and "vm_end h b = Exited code" "reports_exit h code"
  shows "(code mod 256 = EXIT_SETUP_FAILED \<longrightarrow>
      krun_run h InParent b = Some (Came_back (Err (Krun ''krun_* configuration'' (- 1))))) \<and>
    (code mod 256 = EXIT_ENTER_FAILED \<longrightarrow>
      krun_run h InParent b = Some (Came_back (Err (Krun ''krun_start_enter'' (- 1)))))"
proof -
  obtain status where "krun_run h InParent b = Some (Came_back (child_outcome (host_macros h) status))"
    "\<not> wifsignaled (host_macros h) status" "wexitstatus (host_macros h) status = code mod 256"
    using krun_run_parent [OF assms(1,2,4)] by blast
  then show ?thesis by (simp add: child_outcome_def EXIT_SETUP_FAILED_def EXIT_ENTER_FAILED_def)
qed

text \<open>A host on which the workload ends with the given code.\<close>

definition sample_host :: "int \<Rightarrow> krun_host" where
  "sample_host code =
     \<lparr>host_debug = False,
      host_api = \<lparr>krun_ret = (\<lambda>log c. 0), krun_enter = (\<lambda>log c. Exited code)\<rparr>,
      host_info_size = 96, host_info = \<lparr>pid_ret = 96, pti_threadnum = 1, pid_errno = IoError OtherKind []\<rparr>,
      host_macros = \<lparr>wifsignaled = (\<lambda>s. s mod 128 \<noteq> 0), wexitstatus = (\<lambda>s. s div 256)\<rparr>,
      host_waits = (\<lambda>n. if n = 0 then Err (IoError Interrupted []) else Ok (256 * (code mod 256)))\<rparr>"

definition sample_build :: vm_build where
  "sample_build =
     \<lparr>build_rootfs = ''/rootfs'', build_context = ''/context'', output_dir = ''/out'',
      output_filename = ''x.img'', build_tag = ''t'', build_cpus = 2, build_memory_mib = 4096,
      build_nameservers = [V4 192 168 1 1]\<rparr>"

lemma sample_host_facts:
  "passable sample_build"
  "is_ok (check_single_threaded True (host_info_size (sample_host code)) (host_info (sample_host code)))"
  "reports_exit (sample_host code) code"
  "vm_end (sample_host code) b = Exited code"
proof -
  show "passable sample_build" by code_simp
  show "is_ok (check_single_threaded True (host_info_size (sample_host code)) (host_info (sample_host code)))"
    by (simp add: check_single_threaded_def host_thread_count_def sample_host_def)
  have "first_answer (host_waits (sample_host code)) 1"
    by (simp add: first_answer_def sample_host_def interrupted_def)
  then show "reports_exit (sample_host code) code"
    unfolding reports_exit_def
    by (intro exI [of _ 1] exI [of _ "256 * (code mod 256)"]) (auto simp: sample_host_def)
  show "vm_end (sample_host code) b = Exited code"
    by (simp add: vm_end_def enter_vm_def sample_host_def krun_steps_def)
qed

text \<open>The same host, with the child ended by signal 9.\<close>

definition killed_host :: krun_host where
  "killed_host = (sample_host 3)\<lparr>host_waits := (\<lambda>n. Ok 9)\<rparr>"

lemma killed_host_facts:
  "is_ok (check_single_threaded True (host_info_size killed_host) (host_info killed_host))"
  "reports_signal killed_host"
proof -
  show "is_ok (check_single_threaded True (host_info_size killed_host) (host_info killed_host))"
    using sample_host_facts(2) [of 3] by (simp add: killed_host_def)
  have "first_answer (host_waits killed_host) 0"
    by (simp add: first_answer_def killed_host_def interrupted_def)
  then show "reports_signal killed_host"
    unfolding reports_signal_def
    by (intro exI [of _ 0] exI [of _ 9]) (auto simp: killed_host_def sample_host_def)
qed

lemma krun_run_transparent_witness:
  "krun_run (sample_host 3) InParent sample_build = Some (Came_back (Err (Failed (Some 3)))) \<and>
   krun_run killed_host InParent sample_build = Some (Came_back (Err (Failed None)))"
  using krun_run_transparent [OF sample_host_facts(1,2), of 3 3] krun_run_child(1) [OF sample_host_facts(1,2), of 3]
    sample_host_facts(3) [of 3] sample_host_facts(4) [of 3 sample_build]
    krun_run_transparent [OF sample_host_facts(1) killed_host_facts(1)] killed_host_facts(2)
  by (simp add: EXIT_SETUP_FAILED_def EXIT_ENTER_FAILED_def)

lemma workload_code_mistaken_witness:
  "krun_run (sample_host 119) InParent sample_build = Some (Came_back (Err (Krun ''krun_* configuration'' (- 1)))) \<and>
   krun_run (sample_host 118) InParent sample_build = Some (Came_back (Err (Krun ''krun_start_enter'' (- 1))))"
  using workload_code_mistaken [OF sample_host_facts(1,2,4,3), of 119] workload_code_mistaken [OF sample_host_facts(1,2,4,3), of 118]
  by (simp add: EXIT_SETUP_FAILED_def EXIT_ENTER_FAILED_def)

end
