(* ===== verification/Guest.thy ===== *)
theory Guest
  imports Krun
begin

text \<open>
  The end of the contract inside the VM: how \<open>crates/vm-image-builder/vm-image/vm-build\<close> reads
  what \<open>krun_set_exec\<close> and \<open>krun_add_virtiofs\<close> were given. Its mounts, its positional parameters and
  the \<open>resolv.conf\<close> it writes are here; \<open>GuestScript\<close> has the script as a whole.
\<close>

subsection \<open>Arguments, environment and mounts\<close>

text \<open>A C array of strings as its reader sees it: up to the first null pointer.\<close>

definition c_array :: "string option list \<Rightarrow> string list" where
  "c_array xs = map the (takeWhile (\<lambda>x. x \<noteq> None) xs)"

fun getenv :: "string list \<Rightarrow> string \<Rightarrow> string option" where
  "getenv [] name = None"
| "getenv (e # es) name =
     (case strip_prefix (name @ ''='') e of Some v \<Rightarrow> Some v | None \<Rightarrow> getenv es name)"

definition is_ifs :: "char \<Rightarrow> bool" where
  "is_ifs c = (c = CHR '' '' \<or> c = CHR 0x09 \<or> c = newline)"

text \<open>The words of an unquoted expansion. Addresses hold no pattern characters, so no file name
  takes their place.\<close>

definition shell_words :: "string \<Rightarrow> string list" where
  "shell_words s = filter (\<lambda>w. w \<noteq> []) (split_where is_ifs s)"

text \<open>The \<open>resolv.conf\<close> the script binds over the one of the rootfs; \<open>None\<close> where it leaves that.\<close>

definition guest_resolv_conf :: "string list \<Rightarrow> string option" where
  "guest_resolv_conf env =
     (case getenv env VM_DNS_ENV of
        None \<Rightarrow> None
      | Some value \<Rightarrow>
          if value = [] then None
          else Some (concat (map (\<lambda>ns. ''nameserver '' @ ns @ [newline]) (shell_words value))))"

definition guest_mounts :: "(string \<times> string) list" where
  "guest_mounts = [(''openshell-context'', ''/build/context''), (''openshell-output'', ''/build/output'')]"

text \<open>The host directory a tag was exported from, and the host path of a path of the guest.\<close>

fun virtiofs_dir :: "krun_call list \<Rightarrow> string \<Rightarrow> string option" where
  "virtiofs_dir [] tag = None"
| "virtiofs_dir (AddVirtiofs ctx t dir # cs) tag = (if t = tag then Some dir else virtiofs_dir cs tag)"
| "virtiofs_dir (c # cs) tag = virtiofs_dir cs tag"

fun host_path :: "krun_call list \<Rightarrow> (string \<times> string) list \<Rightarrow> string \<Rightarrow> string option" where
  "host_path calls [] p = None"
| "host_path calls ((tag, mnt) # ms) p =
     (case strip_prefix (mnt @ ''/'') p of
        None \<Rightarrow> host_path calls ms p
      | Some rest \<Rightarrow> map_option (\<lambda>dir. join dir rest) (virtiofs_dir calls tag))"

text \<open>The positional parameters, empty where the script was given fewer.\<close>

definition positional :: "string list \<Rightarrow> nat \<Rightarrow> string" where
  "positional argv n = (if n < length argv then argv ! n else [])"

definition guest_containerfile :: "string list \<Rightarrow> string" where
  "guest_containerfile argv = positional argv 0"

definition guest_tag :: "string list \<Rightarrow> string" where
  "guest_tag argv = positional argv 1"

definition guest_output :: "string list \<Rightarrow> string" where
  "guest_output argv = ''/build/output/'' @ positional argv 2"

subsection \<open>The nameservers arrive\<close>

lemma c_array_envp:
  "c_array (krun_envp (args_of b)) =
     VM_PATH # (case dns_env_value b of None \<Rightarrow> [] | Some v \<Rightarrow> [VM_DNS_ENV @ ''='' @ v])"
  by (simp add: c_array_def krun_envp_def args_of_def split: option.split)

lemma getenv_dns: "getenv (c_array (krun_envp (args_of b))) VM_DNS_ENV = dns_env_value b"
proof -
  have "strip_prefix (VM_DNS_ENV @ ''='') VM_PATH = None" by code_simp
  moreover have "strip_prefix (VM_DNS_ENV @ ''='') (VM_DNS_ENV @ ''='' @ v) = Some v" for v
    using strip_prefix_append [of "VM_DNS_ENV @ ''=''" v] by simp
  ultimately show ?thesis
    by (simp add: c_array_envp split: option.split)
qed

lemma not_is_ifs_addr: "c \<in> set (ip_to_string ip) \<Longrightarrow> \<not> is_ifs c"
proof -
  assume "c \<in> set (ip_to_string ip)"
  then have "addr_char c" using ip_to_string_addr_char [of ip] by (simp add: list_all_iff)
  then show "\<not> is_ifs c"
    by (auto simp: is_ifs_def addr_char_def to_digit_def)
qed

lemma shell_words_addrs:
  assumes "addrs \<noteq> []"
  shows "shell_words (join_addrs addrs) = map ip_to_string addrs"
proof -
  have "split_where is_ifs (join_addrs addrs) = map ip_to_string addrs"
    unfolding join_addrs_def using assms not_is_ifs_addr
    by (intro split_where_join_with) (auto simp: is_ifs_def)
  then show ?thesis by (simp add: shell_words_def filter_map o_def)
qed

lemma resolv_conf_nameserver_lines:
  "parse_resolv_conf (concat (map (\<lambda>ns. ''nameserver '' @ ns @ [newline]) (map ip_to_string addrs))) = addrs"
proof -
  let ?line = "\<lambda>ip. NameserverLine [] '' '' ip [] []"
  have "wf_conf_line (?line ip)" for ip
    by (simp add: blank_def is_blank_def comment_def plain_line_def)
  then show ?thesis
    using conf.read_values [of ?line addrs] by (simp add: parse_resolv_conf_def unlines_def o_def)
qed

text \<open>C25. The guest resolves names as the host intends: where \<open>Args::new\<close> accepts a build, the environment it
  prepares for libkrun makes \<open>vm-build\<close> write a \<open>resolv.conf\<close> that names exactly the nameservers of the
  build, in order, and leaves the file of the rootfs alone when the build carries none.\<close>
theorem guest_uses_build_nameservers:
  assumes "args_new b = Ok a"
  shows "map_option parse_resolv_conf (guest_resolv_conf (c_array (krun_envp a))) =
    (if build_nameservers b = [] then None else Some (build_nameservers b))"
proof -
  have a: "a = args_of b" using assms by (simp add: args_new_eq)
  have "join_addrs addrs \<noteq> []" if "addrs \<noteq> []" for addrs
    using shell_words_addrs [OF that] that by (auto simp: shell_words_def)
  then have "guest_resolv_conf (c_array (krun_envp a)) =
      (if build_nameservers b = [] then None
       else Some (concat (map (\<lambda>ns. ''nameserver '' @ ns @ [newline])
         (map ip_to_string (build_nameservers b)))))"
    by (simp add: a guest_resolv_conf_def getenv_dns dns_env_value_def shell_words_addrs)
  then show ?thesis
    by (cases "build_nameservers b = []") (simp_all only: resolv_conf_nameserver_lines option.map if_True if_False simp_thms)
qed

lemma guest_uses_build_nameservers_witness:
  "\<exists>a. args_new sample_build = Ok a \<and>
     map_option parse_resolv_conf (guest_resolv_conf (c_array (krun_envp a))) = Some [V4 192 168 1 1]"
proof -
  have a: "args_new sample_build = Ok (args_of sample_build)" using sample_host_facts(1) by (simp add: args_new_eq)
  have "build_nameservers sample_build = [V4 192 168 1 1]" by (simp add: sample_build_def)
  with guest_uses_build_nameservers [OF a] a show ?thesis by simp
qed

subsection \<open>The files are the host's\<close>

text \<open>The paths the script works with are the host's: through the exported directories, the
  Containerfile named by its first parameter is the one \<open>build\<close> wrote in the context, and the
  file named by its third is the output the caller asked for.\<close>

lemma guest_host_paths:
  fixes b ctx vcpus mem
  defines "calls \<equiv> map snd (krun_steps ctx (args_of b) vcpus mem)"
    and "argv \<equiv> c_array (krun_argv (args_of b))"
  shows "length argv = 3 \<and>
    host_path calls guest_mounts (guest_containerfile argv) = Some (join (build_context b) CONTAINERFILE_NAME) \<and>
    host_path calls guest_mounts (guest_output argv) = Some (output_path b)"
proof -
  have "argv = [containerfile_vm_path b, build_tag b, output_filename b]"
    by (simp add: argv_def c_array_def krun_argv_def args_of_def)
  moreover have "virtiofs_dir calls ''openshell-context'' = Some (build_context b)"
    "virtiofs_dir calls ''openshell-output'' = Some (output_dir b)"
    by (simp_all add: calls_def krun_steps_def args_of_def TAG_ROOT_def TAG_CONTEXT_def TAG_OUTPUT_def)
  moreover have
    "strip_prefix (''/build/context'' @ ''/'') (containerfile_vm_path b) = Some CONTAINERFILE_NAME"
    "strip_prefix (''/build/context'' @ ''/'') (''/build/output/'' @ s) = None"
    "strip_prefix (''/build/output'' @ ''/'') (''/build/output/'' @ s) = Some s" for s
    by (simp_all add: containerfile_vm_path_def)
  ultimately show ?thesis
    by (simp add: guest_mounts_def guest_containerfile_def guest_output_def positional_def output_path_def
        del: append_Cons strip_prefix.simps)
qed

end
