(* ===== verification/Shell.thy ===== *)
theory Shell
  imports Text "HOL-Library.Sublist"
begin

text \<open>
  A shell script under \<open>set -e\<close>, for the two scripts of the build VM. What the programs do that a script calls is
  a function of the call and the state they work on; the script is the order of its calls, the values
  it takes from one into a later one, and the end at the first call that fails.
\<close>

subsection \<open>Calls under \<open>set -e\<close>\<close>

text \<open>A call gives its status and what it prints.\<close>

type_synonym ('c, 'g) programs = "'c \<Rightarrow> 'g \<Rightarrow> (int \<times> string) \<times> 'g"

text \<open>The script runs on that state and the calls made so far.\<close>

type_synonym ('c, 'g) shell = "'g \<times> 'c list"

definition strip_newlines :: "string \<Rightarrow> string" where
  "strip_newlines s = rev (dropWhile (\<lambda>c. c = newline) (rev s))"

text \<open>A call's value is its command substitution, \<open>$(...)\<close>; a status other than 0 ends the script.\<close>

definition invoke :: "('c, 'g) programs \<Rightarrow> 'c \<Rightarrow> (('c, 'g) shell, int, string) action" where
  "invoke S c s =
     (case S c (fst s) of
        ((rc, out), g) \<Rightarrow> (if rc = 0 then Ok (strip_newlines out) else Err rc, (g, snd s @ [c])))"

definition go_on :: "('s, 'e, 'a) action \<Rightarrow> ('a \<Rightarrow> ('s, 'e, 'b) action) \<Rightarrow> ('s, 'e, 'b) action" where
  "go_on m f s = (case m s of (Inl e, s') \<Rightarrow> (Err e, s') | (Inr x, s') \<Rightarrow> f x s')"

fun invoke_all :: "('c, 'g) programs \<Rightarrow> 'c list \<Rightarrow> (('c, 'g) shell, int, unit) action" where
  "invoke_all S [] s = (Ok (), s)"
| "invoke_all S (c # cs) s = go_on (invoke S c) (\<lambda>_. invoke_all S cs) s"

text \<open>\<open>trap\<close> at the exit: the handler runs whichever way the body ends. Its own end under \<open>set -e\<close> is the
  end of the script, otherwise the body's is.\<close>

definition trapped :: "('s, 'e, 'a) action \<Rightarrow> ('s, 'e, unit) action \<Rightarrow> ('s, 'e, 'a) action" where
  "trapped m handler s =
     (case m s of (r, s1) \<Rightarrow>
        (case handler s1 of
           (Inl e, s2) \<Rightarrow> (Err e, s2)
         | (Inr _, s2) \<Rightarrow> (r, s2)))"

subsection \<open>How a run of calls goes\<close>

text \<open>The calls one after the other, where every one of them succeeds.\<close>

fun perform :: "('c, 'g) programs \<Rightarrow> 'c list \<Rightarrow> 'g \<Rightarrow> 'g option" where
  "perform S [] g = Some g"
| "perform S (c # cs) g = (case S c g of ((rc, out), g') \<Rightarrow> if rc = 0 then perform S cs g' else None)"

lemma perform_Cons_Some:
  "perform S (c # cs) g = Some g' \<longleftrightarrow> (\<exists>out g1. S c g = ((0, out), g1) \<and> perform S cs g1 = Some g')"
  by (auto split: prod.splits)

text \<open>What calls leave, whatever their statuses.\<close>

definition after_calls :: "('c, 'g) programs \<Rightarrow> 'c list \<Rightarrow> 'g \<Rightarrow> 'g" where
  "after_calls S cs g = fold (\<lambda>c. snd \<circ> S c) cs g"

text \<open>What the shell makes of a call's output after others have succeeded.\<close>

definition value_after :: "('c, 'g) programs \<Rightarrow> 'c list \<Rightarrow> 'c \<Rightarrow> 'g \<Rightarrow> string option" where
  "value_after S cs c g = map_option (\<lambda>g1. strip_newlines (snd (fst (S c g1)))) (perform S cs g)"

text \<open>The calls that were made when the script ended with \<open>rc\<close>: the last of them failed with it.\<close>

definition stopped :: "('c, 'g) programs \<Rightarrow> 'c list \<Rightarrow> 'g \<Rightarrow> int \<Rightarrow> bool" where
  "stopped S cs g rc =
     (rc \<noteq> 0 \<and> (\<exists>ds c g1. cs = ds @ [c] \<and> perform S ds g = Some g1 \<and> fst (fst (S c g1)) = rc))"

named_theorems shell_simps \<open>how a piece of the script goes on\<close>

lemma go_on_Ok [shell_simps]:
  "go_on m f s = (Inr y, s') \<longleftrightarrow> (\<exists>x s1. m s = (Inr x, s1) \<and> f x s1 = (Inr y, s'))"
  by (auto simp: go_on_def split: prod.splits sum.splits)

lemma invoke_Ok [shell_simps]:
  "invoke S c s = (Inr v, s') \<longleftrightarrow>
     (\<exists>out g. S c (fst s) = ((0, out), g) \<and> v = strip_newlines out \<and> s' = (g, snd s @ [c]))"
  by (auto simp: invoke_def split: prod.splits)

lemma go_on_run: "m s = (Inr x, s1) \<Longrightarrow> go_on m f s = f x s1"
  by (simp add: go_on_def)

lemma trapped_Ok [shell_simps]:
  "trapped m c s = (Inr y, s') \<longleftrightarrow> (\<exists>s1 u. m s = (Inr y, s1) \<and> c s1 = (Inr u, s'))"
  by (auto simp: trapped_def split: prod.splits sum.splits)

lemma perform_append: "perform S (cs @ ds) g = Option.bind (perform S cs g) (perform S ds)"
  by (induction cs arbitrary: g) (auto split: prod.splits)

lemma invoke_all_Ok [shell_simps]:
  "invoke_all S cs s = (Inr u, s') \<longleftrightarrow> (\<exists>g. perform S cs (fst s) = Some g \<and> s' = (g, snd s @ cs))"
proof (induction cs arbitrary: s)
  case (Cons c cs)
  then show ?case by (auto simp: shell_simps split: prod.splits if_splits)
qed auto

text \<open>Whichever way a list of calls ends, the first ones were made and the state is what they left.\<close>

lemma invoke_all_calls:
  "\<exists>ds. prefix ds cs \<and> snd (invoke_all S cs s) = (after_calls S ds (fst s), snd s @ ds)"
proof (induction cs arbitrary: s)
  case (Cons c cs)
  obtain rc out g where c: "S c (fst s) = ((rc, out), g)" by (metis prod.exhaust)
  show ?case
  proof (cases "rc = 0")
    case True
    obtain ds where "prefix ds cs" "snd (invoke_all S cs (g, snd s @ [c])) = (after_calls S ds g, snd s @ c # ds)"
      using Cons.IH [of "(g, snd s @ [c])"] by auto
    with True c show ?thesis
      by (intro exI [of _ "c # ds"]) (simp add: go_on_def invoke_def after_calls_def)
  next
    case False
    with c show ?thesis
      by (intro exI [of _ "[c]"]) (simp add: go_on_def invoke_def after_calls_def)
  qed
qed (simp add: after_calls_def)

text \<open>\<open>within S pl m\<close>: \<open>m\<close> makes calls of a plan only, in its order; all of them, each successful,
  where it yields a value the plan is for, and the first ones up to the one that failed otherwise.\<close>

fun followed ::
  "('c, 'g) programs \<Rightarrow> ('a \<Rightarrow> 'c list set) \<Rightarrow> ('c, 'g) shell \<Rightarrow> (int, 'a) result \<Rightarrow> ('c, 'g) shell \<Rightarrow> bool" where
  "followed S pl s (Inr x) s' =
     (\<exists>ds\<in>pl x. snd s' = snd s @ ds \<and> perform S ds (fst s) = Some (fst s'))"
| "followed S pl s (Inl rc) s' =
     (\<exists>ds x. snd s' = snd s @ ds \<and> stopped S ds (fst s) rc \<and> (\<exists>ps\<in>pl x. prefix ds ps))"

definition within :: "('c, 'g) programs \<Rightarrow> ('a \<Rightarrow> 'c list set) \<Rightarrow> (('c, 'g) shell, int, 'a) action \<Rightarrow> bool" where
  "within S pl m = (\<forall>s. followed S pl s (fst (m s)) (snd (m s)))"

lemma after_calls_append: "after_calls S (cs @ ds) g = after_calls S ds (after_calls S cs g)"
  by (simp add: after_calls_def)

lemma perform_after: "perform S cs g = Some g' \<Longrightarrow> after_calls S cs g = g'"
  by (induction cs arbitrary: g) (auto simp: after_calls_def split: prod.splits if_splits)

lemma withinD: "within S pl m \<Longrightarrow> m s = (r, s') \<Longrightarrow> followed S pl s r s'"
  unfolding within_def by (metis fst_conv snd_conv)

lemma within_mono:
  assumes "within S pl m" "\<And>x. pl x \<subseteq> pl' x"
  shows "within S pl' m"
proof -
  have "followed S pl' s r s'" if "followed S pl s r s'" for s r s'
    using that assms(2) by (cases r) (simp_all, (meson subsetD)+)
  then show ?thesis using assms(1) unfolding within_def by blast
qed

lemma within_invoke: "within S (\<lambda>_. {[c]}) (invoke S c)"
  by (auto simp: within_def invoke_def stopped_def split: prod.splits)

lemma stopped_append:
  assumes "perform S cs g = Some g1" "stopped S ds g1 rc"
  shows "stopped S (cs @ ds) g rc"
proof -
  obtain es c g2 where "ds = es @ [c]" "perform S es g1 = Some g2" "fst (fst (S c g2)) = rc" "rc \<noteq> 0"
    using assms(2) unfolding stopped_def by blast
  then show ?thesis
    unfolding stopped_def using assms(1)
    by (intro conjI exI [of _ "cs @ es"] exI [of _ c] exI [of _ g2]) (simp_all add: perform_append)
qed

text \<open>The plan of two pieces of the script, where the second may use the value of the first.\<close>

definition and_plan ::
  "('a \<Rightarrow> 'c list set) \<Rightarrow> ('a \<Rightarrow> 'b \<Rightarrow> 'c list set) \<Rightarrow> 'b \<Rightarrow> 'c list set" where
  "and_plan pl ql y = {cs @ ds |cs ds x. cs \<in> pl x \<and> ds \<in> ql x y}"

lemma and_plan_nonempty:
  assumes "\<exists>x. pl x \<noteq> {}" "\<forall>x. \<exists>y. ql x y \<noteq> {}"
  shows "\<exists>y. and_plan pl ql y \<noteq> {}"
proof -
  obtain x cs where "cs \<in> pl x" using assms(1) by blast
  moreover obtain y ds where "ds \<in> ql x y" using assms(2) by blast
  ultimately have "cs @ ds \<in> and_plan pl ql y" by (auto simp: and_plan_def)
  then show ?thesis by blast
qed

lemma within_go_on:
  assumes "within S pl m" "\<And>x. within S (ql x) (f x)" "\<And>x. \<exists>y. ql x y \<noteq> {}"
  shows "within S (and_plan pl ql) (go_on m f)"
  unfolding within_def
proof
  fix s
  obtain r1 s1 where 1: "m s = (r1, s1)" by (cases "m s")
  note m = withinD [OF assms(1) 1]
  show "followed S (and_plan pl ql) s (fst (go_on m f s)) (snd (go_on m f s))"
  proof (cases r1)
    case (Inl rc)
    then obtain cs x ps where cs: "snd s1 = snd s @ cs" "stopped S cs (fst s) rc" "ps \<in> pl x" "prefix cs ps"
      using m by auto
    moreover obtain y ds where "ds \<in> ql x y" using assms(3) by blast
    ultimately have "ps @ ds \<in> and_plan pl ql y" "prefix cs (ps @ ds)" by (auto simp: and_plan_def)
    then show ?thesis using 1 Inl cs(1,2) by (auto simp: go_on_def)
  next
    case (Inr x)
    then obtain cs where cs: "cs \<in> pl x" "snd s1 = snd s @ cs" "perform S cs (fst s) = Some (fst s1)"
      using m by auto
    obtain r s' where 2: "f x s1 = (r, s')" by (cases "f x s1")
    note f = withinD [OF assms(2) 2]
    have "followed S (and_plan pl ql) s r s'"
    proof (cases r)
      case (Inl rc)
      then obtain ds y ps where "snd s' = snd s1 @ ds" "stopped S ds (fst s1) rc" "ps \<in> ql x y" "prefix ds ps"
        using f by auto
      then have "snd s' = snd s @ cs @ ds" "stopped S (cs @ ds) (fst s) rc"
        "cs @ ps \<in> and_plan pl ql y" "prefix (cs @ ds) (cs @ ps)"
        using cs stopped_append [OF cs(3)] by (auto simp: and_plan_def)
      then show ?thesis using Inl by (simp only: followed.simps) blast
    next
      case (Inr y)
      then obtain ds where "ds \<in> ql x y" "snd s' = snd s1 @ ds" "perform S ds (fst s1) = Some (fst s')"
        using f by auto
      then have "cs @ ds \<in> and_plan pl ql y" "snd s' = snd s @ cs @ ds" "perform S (cs @ ds) (fst s) = Some (fst s')"
        using cs by (auto simp: and_plan_def perform_append)
      then show ?thesis using Inr by auto
    qed
    then show ?thesis using 1 2 Inr by (simp add: go_on_def)
  qed
qed

lemma within_invoke_all: "within S (\<lambda>_. {cs}) (invoke_all S cs)"
proof (induction cs)
  case Nil
  show ?case by (auto simp: within_def)
next
  case (Cons c cs)
  have "within S (and_plan (\<lambda>_ :: string. {[c]}) (\<lambda>_ _. {cs})) (go_on (invoke S c) (\<lambda>_. invoke_all S cs))"
    by (intro within_go_on within_invoke Cons.IH) simp
  then have "within S (and_plan (\<lambda>_ :: string. {[c]}) (\<lambda>_ _. {cs})) (invoke_all S (c # cs))"
    by (simp add: within_def)
  then show ?case by (rule within_mono) (auto simp: and_plan_def)
qed

end
