(* ===== verification/GuestScript.thy ===== *)
theory GuestScript
  imports Guest Shell "HOL-Library.Signed_Division"
begin

text \<open>
  The whole of \<open>crates/vm-image-builder/vm-image/vm-build\<close>, the script that is the workload of the
  VM, as \<open>Shell\<close> has it. What it calls is \<open>mount\<close>, \<open>awk\<close>, \<open>buildah\<close>, \<open>tar\<close> and the kernel behind
  them. The last section joins it to the host: what \<open>run\<close> returning without an error says about the
  guest.
\<close>

subsection \<open>The calls of the script\<close>

datatype guest_call =
    Exec "string list"
  | Write_to string string
  | Raise_file_limit \<comment> \<open>\<open>ulimit -n "$(ulimit -Hn)"\<close>\<close>

text \<open>What the programs of the guest do with a call, to its state.\<close>

type_synonym 'g guest_system = "(guest_call, 'g) programs"

subsection \<open>The size of the storage\<close>

text \<open>The value of a variable in shell arithmetic, which is that of signed 64-bit numbers. A number in decimal
  is what the kernel reports; an empty variable counts as 0. Anything else, which a shell would
  read as an octal number or as a name, is an error here.\<close>

definition arith_value :: "string \<Rightarrow> int option" where
  "arith_value s =
     (if s = [] then Some 0
      else if list_all (\<lambda>c. to_digit 10 c \<noteq> None) s \<and> (hd s \<noteq> CHR ''0'' \<or> s = ''0'')
      then Some (int (digits_value 10 0 s))
      else None)"

definition shell_int :: "int \<Rightarrow> int" where
  "shell_int n = sint (word_of_int n :: 64 word)"

definition storage_mb :: "int \<Rightarrow> int" where
  "storage_mb mem_kb = shell_int (shell_int (shell_int mem_kb * 3) sdiv 4) sdiv 1024"

subsection \<open>The script\<close>

definition share_calls :: "guest_call list" where
  "share_calls =
     Exec [''mkdir'', ''-p'', ''/build/context'', ''/build/output''] #
     map (\<lambda>(tag, dir). Exec [''mount'', ''-t'', ''virtiofs'', tag, dir]) guest_mounts"

definition mem_call :: guest_call where
  "mem_call = Exec [''awk'', ''/^MemTotal:/ {print $2}'', ''/proc/meminfo'']"

definition storage_calls :: "int \<Rightarrow> guest_call list" where
  "storage_calls mb =
     [Exec [''mkdir'', ''-p'', ''/var/lib/containers''],
      Exec [''mount'', ''-t'', ''tmpfs'', ''-o'', ''size='' @ fmt_int mb @ ''m'', ''tmpfs'', ''/var/lib/containers''],
      Exec [''mount'', ''-t'', ''tmpfs'', ''tmpfs'', ''/run''],
      Exec [''mkdir'', ''-p'', ''/run/containers'']]"

definition dns_calls :: "string list \<Rightarrow> guest_call list" where
  "dns_calls env =
     (case guest_resolv_conf env of
        None \<Rightarrow> []
      | Some text \<Rightarrow>
          [Write_to ''/run/resolv.conf'' text,
           Exec [''mount'', ''-o'', ''bind'', ''/run/resolv.conf'', ''/etc/resolv.conf'']])"

definition build_calls :: "string list \<Rightarrow> guest_call list" where
  "build_calls argv =
     [Exec [''mkdir'', ''-p'', ''/var/tmp''],
      Exec [''mount'', ''-t'', ''tmpfs'', ''tmpfs'', ''/var/tmp''],
      Raise_file_limit,
      Exec [''buildah'', ''bud'', ''--isolation'', ''chroot'', ''--network'', ''host'',
        ''-f'', guest_containerfile argv, ''-t'', guest_tag argv, ''/build/context'']]"

definition export_calls :: "string list \<Rightarrow> string \<Rightarrow> string \<Rightarrow> guest_call list" where
  "export_calls argv ctr mnt =
     [Exec [''tar'', ''-cf'', guest_output argv, ''-C'', mnt, ''.''],
      Exec [''buildah'', ''umount'', ctr],
      Exec [''buildah'', ''rm'', ctr]]"

text \<open>\<open>STORAGE_MB\<close>: an error in the arithmetic ends a shell with 2.\<close>

definition storage_size :: "string \<Rightarrow> ('s, int, int) action" where
  "storage_size mem_kb s =
     (case arith_value mem_kb of None \<Rightarrow> (Err 2, s) | Some kb \<Rightarrow> (Ok (storage_mb kb), s))"

definition script_body :: "'g guest_system \<Rightarrow> string list \<Rightarrow> string list \<Rightarrow> ((guest_call, 'g) shell, int, unit) action" where
  "script_body S argv env =
     go_on (invoke_all S share_calls) (\<lambda>_.
     go_on (invoke S mem_call) (\<lambda>mem_kb.
     go_on (storage_size mem_kb) (\<lambda>mb.
     go_on (invoke_all S (storage_calls mb)) (\<lambda>_.
     go_on (invoke_all S (dns_calls env)) (\<lambda>_.
     go_on (invoke_all S (build_calls argv)) (\<lambda>_.
     go_on (invoke S (Exec [''buildah'', ''from'', guest_tag argv])) (\<lambda>ctr.
     go_on (invoke S (Exec [''buildah'', ''mount'', ctr])) (\<lambda>mnt.
       invoke_all S (export_calls argv ctr mnt)))))))))"

text \<open>The handler of the exit: its pipeline of \<open>dmesg\<close>, \<open>grep\<close> and \<open>tail\<close> gives the last lines on
  memory that ran out; the status of the script stays what it was.\<close>

definition on_exit :: "int \<Rightarrow> string \<Rightarrow> string list" where
  "on_exit rc oom_lines =
     (let oom = strip_newlines oom_lines in
      if rc \<noteq> 0 \<and> oom \<noteq> [] then
        [newline # ''[vm-build] OOM detected:'' @ [newline] @ oom @ [newline],
         ''[vm-build] Hint: retry with a larger --vm-memory value'' @ [newline]]
      else [])"

record 'g guest_end =
  guest_status :: int
  guest_stderr :: "string list"
  guest_calls :: "guest_call list"
  guest_state :: 'g

definition vm_build_script ::
  "'g guest_system \<Rightarrow> ('g \<Rightarrow> string) \<Rightarrow> string list \<Rightarrow> string list \<Rightarrow> 'g \<Rightarrow> 'g guest_end" where
  "vm_build_script S oom argv env g0 =
     (case script_body S argv env (g0, []) of
        (r, (g, calls)) \<Rightarrow>
          (let rc = (case r of Inl rc \<Rightarrow> rc | Inr _ \<Rightarrow> 0) in
           \<lparr>guest_status = rc, guest_stderr = on_exit rc (oom g), guest_calls = calls, guest_state = g\<rparr>))"


subsection \<open>What the script does\<close>

lemma storage_size_Ok [shell_simps]:
  "storage_size mem s = (Inr mb, s') \<longleftrightarrow> (\<exists>kb. arith_value mem = Some kb \<and> mb = storage_mb kb \<and> s' = s)"
  by (auto simp: storage_size_def split: option.splits)

definition script_plan :: "string list \<Rightarrow> string list \<Rightarrow> int \<Rightarrow> string \<Rightarrow> string \<Rightarrow> guest_call list" where
  "script_plan argv env mb ctr mnt =
     share_calls @ [mem_call] @ storage_calls mb @ dns_calls env @ build_calls argv @
     [Exec [''buildah'', ''from'', guest_tag argv], Exec [''buildah'', ''mount'', ctr]] @
     export_calls argv ctr mnt"

text \<open>The only end that is not that of a call: the kernel's report of the memory is no number.\<close>

definition bad_report :: "'g guest_system \<Rightarrow> guest_call list \<Rightarrow> 'g \<Rightarrow> int \<Rightarrow> bool" where
  "bad_report S calls g0 rc =
     (rc = 2 \<and> calls = share_calls @ [mem_call] \<and> perform S calls g0 \<noteq> None \<and>
      (\<exists>mem. value_after S share_calls mem_call g0 = Some mem \<and> arith_value mem = None))"

definition sized_body :: "'g guest_system \<Rightarrow> string list \<Rightarrow> string list \<Rightarrow> int \<Rightarrow> ((guest_call, 'g) shell, int, unit) action" where
  "sized_body S argv env mb =
     go_on (invoke_all S (storage_calls mb)) (\<lambda>_.
     go_on (invoke_all S (dns_calls env)) (\<lambda>_.
     go_on (invoke_all S (build_calls argv)) (\<lambda>_.
     go_on (invoke S (Exec [''buildah'', ''from'', guest_tag argv])) (\<lambda>ctr.
     go_on (invoke S (Exec [''buildah'', ''mount'', ctr])) (\<lambda>mnt.
       invoke_all S (export_calls argv ctr mnt))))))"

definition sized_plan :: "string list \<Rightarrow> string list \<Rightarrow> int \<Rightarrow> string \<Rightarrow> string \<Rightarrow> guest_call list" where
  "sized_plan argv env mb ctr mnt =
     storage_calls mb @ dns_calls env @ build_calls argv @
     [Exec [''buildah'', ''from'', guest_tag argv], Exec [''buildah'', ''mount'', ctr]] @
     export_calls argv ctr mnt"

lemma script_plan_sized: "script_plan argv env mb ctr mnt = (share_calls @ [mem_call]) @ sized_plan argv env mb ctr mnt"
  by (simp add: script_plan_def sized_plan_def)

lemma script_body_sized:
  "script_body S argv env =
     go_on (go_on (invoke_all S share_calls) (\<lambda>_. invoke S mem_call))
       (\<lambda>mem_kb. go_on (storage_size mem_kb) (sized_body S argv env))"
  by (rule ext) (simp add: script_body_def sized_body_def go_on_def split: prod.split sum.split)

lemma sized_body_within:
  "within S (\<lambda>_. {sized_plan argv env mb ctr mnt |ctr mnt. True}) (sized_body S argv env mb)"
proof (rule within_mono)
  show "within S
    (and_plan (\<lambda>_ :: unit. {storage_calls mb}) (\<lambda>_.
     and_plan (\<lambda>_ :: unit. {dns_calls env}) (\<lambda>_. and_plan (\<lambda>_ :: unit. {build_calls argv}) (\<lambda>_.
     and_plan (\<lambda>_. {[Exec [''buildah'', ''from'', guest_tag argv]]}) (\<lambda>ctr.
     and_plan (\<lambda>_. {[Exec [''buildah'', ''mount'', ctr]]}) (\<lambda>mnt _. {export_calls argv ctr mnt}))))))
    (sized_body S argv env mb)"
    unfolding sized_body_def
    by (intro within_go_on within_invoke_all within_invoke and_plan_nonempty allI) simp_all
qed (auto simp: and_plan_def sized_plan_def)

lemma memory_read_within:
  "within S (\<lambda>_. {share_calls @ [mem_call]}) (go_on (invoke_all S share_calls) (\<lambda>_. invoke S mem_call))"
proof (rule within_mono)
  show "within S (and_plan (\<lambda>_ :: unit. {share_calls}) (\<lambda>_ _ :: string. {[mem_call]}))
    (go_on (invoke_all S share_calls) (\<lambda>_. invoke S mem_call))"
    by (intro within_go_on within_invoke_all within_invoke) simp
qed (auto simp: and_plan_def)

lemma script_body_fails:
  assumes "script_body S argv env (g0, []) = (Inl rc, (g, calls))"
  shows "rc \<noteq> 0 \<and> (stopped S calls g0 rc \<or> bad_report S calls g0 rc) \<and>
    (\<exists>mb ctr mnt. prefix calls (script_plan argv env mb ctr mnt))"
proof -
  let ?read = "go_on (invoke_all S share_calls) (\<lambda>_. invoke S mem_call)"
  obtain r1 g1 cs1 where 1: "?read (g0, []) = (r1, (g1, cs1))" by (metis prod.exhaust)
  note read = withinD [OF memory_read_within 1]
  show ?thesis
  proof (cases r1)
    case (Inl rc1)
    then have e: "rc1 = rc" "cs1 = calls" using assms 1 by (simp_all add: script_body_sized go_on_def)
    then have "stopped S calls g0 rc" "prefix calls (share_calls @ [mem_call])" using read Inl by auto
    then show ?thesis
      by (metis prefix_order.trans prefixI script_plan_sized stopped_def)
  next
    case (Inr mem)
    then have read: "cs1 = share_calls @ [mem_call]" "perform S cs1 g0 = Some g1" using read by auto
    have rest: "go_on (storage_size mem) (sized_body S argv env) (g1, cs1) = (Inl rc, (g, calls))"
      using assms 1 Inr by (simp add: script_body_sized go_on_def)
    show ?thesis
    proof (cases "arith_value mem")
      case None
      then have e: "rc = 2" "calls = cs1" using rest by (simp_all add: go_on_def storage_size_def)
      have "value_after S share_calls mem_call g0 = Some mem"
        using 1 Inr by (auto simp: shell_simps value_after_def)
      then have "bad_report S calls g0 rc" using None e read by (auto simp: bad_report_def)
      then show ?thesis using e read(1) script_plan_sized by (metis prefixI zero_neq_numeral)
    next
      case (Some kb)
      then have "sized_body S argv env (storage_mb kb) (g1, cs1) = (Inl rc, (g, calls))"
        using rest by (simp add: go_on_def storage_size_def)
      from withinD [OF sized_body_within this] obtain ds ctr mnt where
        "calls = cs1 @ ds" "stopped S ds g1 rc" "prefix ds (sized_plan argv env (storage_mb kb) ctr mnt)" by auto
      then show ?thesis
        using stopped_append [OF read(2)] read(1) script_plan_sized stopped_def by (metis same_prefix_prefix)
    qed
  qed
qed


text \<open>What the calls that succeeded gave the script: the numbers and names in the later ones.\<close>

definition script_values ::
  "'g guest_system \<Rightarrow> string list \<Rightarrow> string list \<Rightarrow> 'g \<Rightarrow> int \<Rightarrow> string \<Rightarrow> string \<Rightarrow> bool" where
  "script_values S argv env g0 kb ctr mnt =
     (let before = share_calls @ [mem_call] @ storage_calls (storage_mb kb) @ dns_calls env @ build_calls argv;
          from_call = Exec [''buildah'', ''from'', guest_tag argv] in
      (\<exists>mem. value_after S share_calls mem_call g0 = Some mem \<and> arith_value mem = Some kb) \<and>
      value_after S before from_call g0 = Some ctr \<and>
      value_after S (before @ [from_call]) (Exec [''buildah'', ''mount'', ctr]) g0 = Some mnt)"

lemma script_body_Ok:
  assumes "script_body S argv env (g0, []) = (Inr u, (g, calls))"
  shows "\<exists>kb ctr mnt. script_values S argv env g0 kb ctr mnt \<and>
    calls = script_plan argv env (storage_mb kb) ctr mnt"
  using assms unfolding script_body_def
  by (auto simp: shell_simps script_values_def value_after_def script_plan_def perform_append Let_def)


lemma script_body_performed:
  assumes "script_body S argv env (g0, []) = (Inr u, (g, calls))"
  shows "perform S calls g0 = Some g"
  using assms unfolding script_body_def by (auto simp: shell_simps perform_append)

lemma vm_build_script_cases:
  fixes S :: "'g guest_system" and oom argv env g0
  defines "e \<equiv> vm_build_script S oom argv env g0"
  shows "if guest_status e = 0
    then script_body S argv env (g0, []) = (Inr (), (guest_state e, guest_calls e)) \<and>
      perform S (guest_calls e) g0 = Some (guest_state e)
    else (stopped S (guest_calls e) g0 (guest_status e) \<or> bad_report S (guest_calls e) g0 (guest_status e)) \<and>
      (\<exists>mb ctr mnt. prefix (guest_calls e) (script_plan argv env mb ctr mnt))"
proof -
  obtain r g calls where b: "script_body S argv env (g0, []) = (r, (g, calls))"
    by (cases "script_body S argv env (g0, [])") auto
  show ?thesis
  proof (cases r)
    case (Inl rc)
    with script_body_fails [of S argv env g0 rc g calls] b show ?thesis by (simp add: e_def vm_build_script_def)
  next
    case (Inr u)
    with script_body_performed [of S argv env g0 u g calls] b show ?thesis by (simp add: e_def vm_build_script_def)
  qed
qed

lemma vm_build_script_0:
  assumes "guest_status (vm_build_script S oom argv env g0) = 0"
  shows "\<exists>kb ctr mnt. script_values S argv env g0 kb ctr mnt \<and>
    guest_calls (vm_build_script S oom argv env g0) = script_plan argv env (storage_mb kb) ctr mnt \<and>
    perform S (script_plan argv env (storage_mb kb) ctr mnt) g0 =
      Some (guest_state (vm_build_script S oom argv env g0))"
proof -
  have ok: "script_body S argv env (g0, []) =
      (Inr (), (guest_state (vm_build_script S oom argv env g0), guest_calls (vm_build_script S oom argv env g0)))"
    "perform S (guest_calls (vm_build_script S oom argv env g0)) g0 =
      Some (guest_state (vm_build_script S oom argv env g0))"
    using vm_build_script_cases [of S oom argv env g0] assms by simp_all
  show ?thesis using script_body_Ok [OF ok(1)] ok(2) by metis
qed

lemma script_completed:
  assumes "guest_status (vm_build_script S oom argv env g0) = 0"
  shows "\<exists>kb ctr mnt. script_values S argv env g0 kb ctr mnt \<and>
    perform S (script_plan argv env (storage_mb kb) ctr mnt) g0 \<noteq> None"
  using vm_build_script_0 [OF assms] by auto

text \<open>C11. The workload of the VM succeeds only as a whole: when \<open>vm-build\<close> ends with 0, it made exactly the
  calls of its plan, in order, and each succeeded - the shares mounted, the storage sized by the
  memory the kernel reports, the resolver bound, the image built from the given Containerfile under
  the given tag, and the file system of a container of that tag written to the given output.\<close>
theorem vm_build_script_success:
  assumes "guest_status (vm_build_script S oom argv env g0) = 0"
  shows "\<exists>kb ctr mnt. script_values S argv env g0 kb ctr mnt \<and>
    guest_calls (vm_build_script S oom argv env g0) = script_plan argv env (storage_mb kb) ctr mnt \<and>
    perform S (script_plan argv env (storage_mb kb) ctr mnt) g0 =
      Some (guest_state (vm_build_script S oom argv env g0))"
  using assms by (rule vm_build_script_0)

text \<open>C23. It stops at the first call that fails: the calls made are then the first ones of a plan, all
  but the last succeeded, and the status is that of the last. The one other failure is that of the shell's
  arithmetic, 2, where all calls up to the kernel's report of the memory succeeded and the report is no number. The hint at the memory of the VM is printed exactly when the kernel's log has lines on it.\<close>
theorem vm_build_script_stops:
  assumes "guest_status (vm_build_script S oom argv env g0) \<noteq> 0"
  shows "(stopped S (guest_calls (vm_build_script S oom argv env g0)) g0
        (guest_status (vm_build_script S oom argv env g0)) \<or>
      bad_report S (guest_calls (vm_build_script S oom argv env g0)) g0
        (guest_status (vm_build_script S oom argv env g0))) \<and>
    (\<exists>mb ctr mnt. prefix (guest_calls (vm_build_script S oom argv env g0)) (script_plan argv env mb ctr mnt)) \<and>
    (guest_stderr (vm_build_script S oom argv env g0) = [] \<longleftrightarrow>
      strip_newlines (oom (guest_state (vm_build_script S oom argv env g0))) = [])"
proof -
  have "guest_stderr (vm_build_script S oom argv env g0) = [] \<longleftrightarrow>
      strip_newlines (oom (guest_state (vm_build_script S oom argv env g0))) = []"
    using assms by (auto simp: vm_build_script_def on_exit_def Let_def split: prod.splits)
  then show ?thesis using vm_build_script_cases [of S oom argv env g0] assms by simp
qed

subsection \<open>The storage leaves memory free\<close>

lemma shell_int_id: "- (2 ^ 63) \<le> n \<Longrightarrow> n < 2 ^ 63 \<Longrightarrow> shell_int n = n"
  by (simp add: shell_int_def signed_of_int signed_take_bit_int_eq_self_iff)

lemma sdiv_nonneg: "0 \<le> (a :: int) \<Longrightarrow> 0 < b \<Longrightarrow> a sdiv b = a div b"
  by (cases "a = 0") (simp_all add: signed_divide_int_def)

lemma storage_mb_eq:
  assumes "0 \<le> kb" "kb < 2 ^ 61"
  shows "storage_mb kb = kb * 3 div 4 div 1024"
proof -
  have "shell_int kb = kb" "shell_int (kb * 3) = kb * 3" using assms by (auto intro!: shell_int_id)
  moreover have "0 \<le> kb * 3 div 4" "kb * 3 div 4 \<le> kb * 3" using assms(1) by linarith+
  moreover from this have "shell_int (kb * 3 div 4) = kb * 3 div 4"
    using assms by (intro shell_int_id) simp_all
  ultimately show ?thesis using assms by (simp add: storage_mb_def sdiv_nonneg)
qed

text \<open>C24. The storage given to \<open>buildah\<close> is three quarters of the memory, to the megabyte below: at least a quarter stays
  for the rest of the guest, and the 64-bit arithmetic of the shell does not overflow on any
  memory below \<open>2 ^ 61\<close> kB.\<close>
theorem storage_leaves_quarter:
  assumes "arith_value mem = Some kb" "kb < 2 ^ 61"
  shows "0 \<le> storage_mb kb \<and> 4096 * storage_mb kb \<le> 3 * kb \<and> 3 * kb < 4096 * storage_mb kb + 4096"
proof -
  have "0 \<le> kb" using assms(1) by (auto simp: arith_value_def split: if_splits)
  moreover from this have "storage_mb kb = kb * 3 div 4 div 1024" using storage_mb_eq assms(2) by blast
  moreover have "kb * 3 div 4 div 1024 = kb * 3 div 4096" using zdiv_zmult2_eq [of 1024 "kb * 3" 4] by simp
  ultimately have "storage_mb kb = kb * 3 div 4096" "0 \<le> kb" by simp_all
  moreover define r where "r = kb * 3 mod 4096"
  ultimately have e: "4096 * storage_mb kb + r = kb * 3" "0 \<le> r" "r < 4096" "0 \<le> storage_mb kb"
    by (simp_all add: mult_div_mod_eq)
  then show ?thesis by simp
qed


subsection \<open>What the host learns\<close>

text \<open>What a context is to execute: the last \<open>krun_set_exec\<close> on it.\<close>

fun exec_of :: "krun_call list \<Rightarrow> u32 \<Rightarrow> (string \<times> string option list \<times> string option list) option" where
  "exec_of [] ctx = None"
| "exec_of (SetExec c e a p # cs) ctx =
     (case exec_of cs ctx of None \<Rightarrow> if c = ctx then Some (e, a, p) else None | Some x \<Rightarrow> Some x)"
| "exec_of (c # cs) ctx = exec_of cs ctx"

text \<open>What the program relies on of libkrun: when \<open>krun_start_enter\<close> ends the process, it is with
  an exit status, which is 0 only where the script ended with 0 in a guest booted from the calls
  made before (\<open>boot\<close>).\<close>

definition boots_script ::
  "libkrun \<Rightarrow> 'g guest_system \<Rightarrow> ('g \<Rightarrow> string) \<Rightarrow> (krun_call list \<Rightarrow> 'g) \<Rightarrow> bool" where
  "boots_script api S oom boot =
     (\<forall>log ctx argv envp code.
        exec_of log ctx = Some (VM_BUILD_SCRIPT, argv, envp) \<and> krun_enter api log (StartEnter ctx) = Exited code \<longrightarrow>
        0 \<le> code \<and> code < 256 \<and>
        (code = 0 \<longrightarrow> guest_status (vm_build_script S oom (c_array argv) (c_array envp) (boot log)) = 0))"

text \<open>The calls made before the VM is entered.\<close>

definition boot_log :: "krun_host \<Rightarrow> vm_build \<Rightarrow> krun_call list" where
  "boot_log h b =
     krun_prologue (host_debug h) @ [CreateCtx] @
     map snd (krun_steps (word_of_int (krun_ctx (host_debug h) (host_api h))) (args_of b)
       (build_cpus b) (build_memory_mib b))"

lemma exec_of_append [simp]:
  "exec_of (cs @ ds) ctx = (case exec_of ds ctx of None \<Rightarrow> exec_of cs ctx | Some x \<Rightarrow> Some x)"
  by (induction cs ctx rule: exec_of.induct) (auto split: option.splits)

lemma exec_of_boot_log:
  "exec_of (boot_log h b) (word_of_int (krun_ctx (host_debug h) (host_api h))) =
     Some (VM_BUILD_SCRIPT, krun_argv (args_of b), krun_envp (args_of b))"
  by (simp add: boot_log_def krun_steps_def args_of_def)

lemma virtiofs_dir_prologue:
  "virtiofs_dir (krun_prologue debug @ CreateCtx # cs) tag = virtiofs_dir cs tag"
  by (simp add: krun_prologue_def)

lemma host_path_prologue:
  "host_path (krun_prologue debug @ [CreateCtx] @ cs) ms p = host_path cs ms p"
  by (induction ms) (auto simp: virtiofs_dir_prologue split: option.split)

text \<open>When \<open>run\<close> of the parent returns without an error, the VM was entered and ended with 0.\<close>

lemma krun_run_Ok:
  assumes "krun_run h InParent b = Some (Came_back (Ok ()))"
  shows "passable b" "is_ok (check_single_threaded True (host_info_size h) (host_info h))"
  using assms by (auto simp: krun_run_def args_new_eq is_ok_iff split: sum.splits)

lemma krun_run_entered:
  assumes "krun_run h InParent b = Some (Came_back (Ok ()))"
    "krun_run h InChild b = Some (Process_exit code)" "reports_exit h code"
  shows "code mod 256 = 0 \<and> krun_enter (host_api h) (boot_log h b)
    (StartEnter (word_of_int (krun_ctx (host_debug h) (host_api h)))) = Exited code"
proof -
  obtain status where "child_outcome (host_macros h) status = Ok ()"
    "wexitstatus (host_macros h) status = code mod 256"
    using krun_run_parent [OF krun_run_Ok [OF assms(1)] assms(3)] assms(1) by auto
  then have z: "code mod 256 = 0" by (auto simp: child_outcome_def Let_def split: if_splits)
  have code: "code = child_code (vm_end h b)" using assms(2) krun_run_child(1) [OF krun_run_Ok [OF assms(1)]] by simp
  have "vm_end h b = Exited code"
  proof (cases "vm_end h b")
    case (Returned c)
    with enter_vm_returned [OF Returned] code z show ?thesis
      by (auto simp: EXIT_SETUP_FAILED_def EXIT_ENTER_FAILED_def)
  qed (use code in simp)
  then show ?thesis
    using z enter_vm_cases [of "host_debug h" "host_api h" "args_of b" "build_cpus b" "build_memory_mib b"]
    by (auto simp: vm_end_def boot_log_def split: if_splits ended.splits)
qed


lemma guest_argv:
  "c_array (krun_argv (args_of b)) = [containerfile_vm_path b, build_tag b, output_filename b]"
  by (simp add: c_array_def krun_argv_def args_of_def)

lemma vm_image_built_args:
  assumes "krun_run h InParent b = Some (Came_back (Ok ()))" "boots_script (host_api h) S oom boot"
    "krun_run h InChild b = Some (Process_exit code)" "reports_exit h code"
  shows "\<exists>argv kb ctr mnt calls. argv = c_array (krun_argv (args_of b)) \<and>
    script_values S argv (c_array (krun_envp (args_of b))) (boot (boot_log h b)) kb ctr mnt \<and>
    calls = script_plan argv (c_array (krun_envp (args_of b))) (storage_mb kb) ctr mnt \<and>
    perform S calls (boot (boot_log h b)) \<noteq> None \<and>
    Exec [''buildah'', ''bud'', ''--isolation'', ''chroot'', ''--network'', ''host'',
      ''-f'', guest_containerfile argv, ''-t'', build_tag b, ''/build/context''] \<in> set calls \<and>
    host_path (boot_log h b) guest_mounts (guest_containerfile argv) =
      Some (join (build_context b) CONTAINERFILE_NAME) \<and>
    Exec [''tar'', ''-cf'', guest_output argv, ''-C'', mnt, ''.''] \<in> set calls \<and>
    host_path (boot_log h b) guest_mounts (guest_output argv) = Some (output_path b)"
proof -
  let ?argv = "c_array (krun_argv (args_of b))" and ?env = "c_array (krun_envp (args_of b))"
    and ?g = "boot (boot_log h b)"
  have enter: "code mod 256 = 0" "krun_enter (host_api h) (boot_log h b)
      (StartEnter (word_of_int (krun_ctx (host_debug h) (host_api h)))) = Exited code"
    using krun_run_entered [OF assms(1,3,4)] by simp_all
  have ended: "code = 0" "guest_status (vm_build_script S oom ?argv ?env ?g) = 0"
    using assms(2) enter exec_of_boot_log [of h b] unfolding boots_script_def by force+
  obtain kb ctr mnt where run: "script_values S ?argv ?env ?g kb ctr mnt"
    "perform S (script_plan ?argv ?env (storage_mb kb) ctr mnt) ?g \<noteq> None"
    using script_completed [OF ended(2)] by metis
  have paths: "host_path (boot_log h b) guest_mounts (guest_containerfile ?argv) =
      Some (join (build_context b) CONTAINERFILE_NAME)"
    "host_path (boot_log h b) guest_mounts (guest_output ?argv) = Some (output_path b)"
    unfolding boot_log_def host_path_prologue using guest_host_paths by blast+
  have "guest_tag ?argv = build_tag b" by (simp add: guest_argv guest_tag_def positional_def)
  then show ?thesis
    using run paths
    by (intro exI [of _ ?argv] exI [of _ kb] exI [of _ ctr] exI [of _ mnt]
        exI [of _ "script_plan ?argv ?env (storage_mb kb) ctr mnt"])
      (simp add: script_plan_def build_calls_def export_calls_def)
qed

lemma vm_image_built:
  assumes "krun_run h InParent b = Some (Came_back (Ok ()))" "boots_script (host_api h) S oom boot"
    "krun_run h InChild b = Some (Process_exit code)" "reports_exit h code"
  shows "\<exists>a argv env kb ctr mnt calls. args_new b = Ok a \<and>
    argv = c_array (krun_argv a) \<and> env = c_array (krun_envp a) \<and>
    script_values S argv env (boot (boot_log h b)) kb ctr mnt \<and>
    calls = script_plan argv env (storage_mb kb) ctr mnt \<and>
    perform S calls (boot (boot_log h b)) \<noteq> None \<and>
    Exec [''buildah'', ''bud'', ''--isolation'', ''chroot'', ''--network'', ''host'',
      ''-f'', guest_containerfile argv, ''-t'', build_tag b, ''/build/context''] \<in> set calls \<and>
    host_path (boot_log h b) guest_mounts (guest_containerfile argv) =
      Some (join (build_context b) CONTAINERFILE_NAME) \<and>
    Exec [''tar'', ''-cf'', guest_output argv, ''-C'', mnt, ''.''] \<in> set calls \<and>
    host_path (boot_log h b) guest_mounts (guest_output argv) = Some (output_path b)"
proof -
  have "args_new b = Ok (args_of b)" using krun_run_Ok(1) [OF assms(1)] by (simp add: args_new_eq)
  with vm_image_built_args [OF assms] show ?thesis by blast
qed

text \<open>C10. Success on the host is success in the guest. When the parent's \<open>run\<close> returns without an
  error, then, with a libkrun that reports the exit status of its workload, the script in the VM
  was booted with the shares, arguments and environment of the request and ran to its end: it built
  the image from the file that is the Containerfile of the context on the host, under the tag of the
  request, and wrote the file system of the image to the output the request names on the host.\<close>
theorem vm_success_builds_image:
  assumes "krun_run h InParent b = Some (Came_back (Ok ()))" "boots_script (host_api h) S oom boot"
    "krun_run h InChild b = Some (Process_exit code)" "reports_exit h code"
  shows "\<exists>a argv env kb ctr mnt calls. args_new b = Ok a \<and>
    argv = c_array (krun_argv a) \<and> env = c_array (krun_envp a) \<and>
    script_values S argv env (boot (boot_log h b)) kb ctr mnt \<and>
    calls = script_plan argv env (storage_mb kb) ctr mnt \<and>
    perform S calls (boot (boot_log h b)) \<noteq> None \<and>
    Exec [''buildah'', ''bud'', ''--isolation'', ''chroot'', ''--network'', ''host'',
      ''-f'', guest_containerfile argv, ''-t'', build_tag b, ''/build/context''] \<in> set calls \<and>
    host_path (boot_log h b) guest_mounts (guest_containerfile argv) =
      Some (join (build_context b) CONTAINERFILE_NAME) \<and>
    Exec [''tar'', ''-cf'', guest_output argv, ''-C'', mnt, ''.''] \<in> set calls \<and>
    host_path (boot_log h b) guest_mounts (guest_output argv) = Some (output_path b)"
  using assms by (rule vm_image_built)


subsection \<open>A guest\<close>

text \<open>A guest in which every call succeeds but the one numbered \<open>bad\<close>; its state counts them. Call 3
  is the one of \<open>awk\<close>, 12 and 13 are those that name the container and where it is mounted.\<close>

definition sample_guest :: "nat \<Rightarrow> nat guest_system" where
  "sample_guest bad c n =
     ((if n = bad then 1 else 0,
       if n = 3 then ''4039432'' @ [newline]
       else if n = 12 then ''work'' @ [newline]
       else if n = 13 then ''/mnt'' @ [newline]
       else []), Suc n)"

definition sample_oom :: "nat \<Rightarrow> string" where
  "sample_oom n = ''Out of memory'' @ [newline]"

definition sample_argv :: "string list" where
  "sample_argv = [''/build/context/Containerfile'', ''t'', ''x.img'']"

abbreviation sample_guest_end :: "nat \<Rightarrow> nat guest_end" where
  "sample_guest_end bad \<equiv> vm_build_script (sample_guest bad) sample_oom sample_argv [] 0"

lemma sample_outputs:
  "arith_value (strip_newlines (''4039432'' @ [newline])) = Some 4039432"
  "strip_newlines (''work'' @ [newline]) = ''work''" "strip_newlines (''/mnt'' @ [newline]) = ''/mnt''"
  by (simp_all add: strip_newlines_def arith_value_def digits_value_def to_digit_def)

lemmas sample_guest_simps =
  vm_build_script_def script_body_def go_on_def invoke_def storage_size_def share_calls_def guest_mounts_def
  storage_calls_def dns_calls_def build_calls_def export_calls_def sample_guest_def sample_outputs

lemma sample_guest_succeeds: "guest_status (vm_build_script (sample_guest 100) sample_oom argv env 0) = 0"
  by (cases "guest_resolv_conf env") (simp_all add: sample_guest_simps Let_def del: append_Cons append.simps)

lemma sample_guest_fails: "guest_status (sample_guest_end 14) = 1"
proof -
  have "guest_resolv_conf [] = None" by (simp add: guest_resolv_conf_def)
  then show ?thesis by (simp add: sample_guest_simps Let_def del: append_Cons append.simps)
qed

lemma vm_build_script_success_witness:
  "\<exists>kb ctr mnt. script_values (sample_guest 100) sample_argv [] 0 kb ctr mnt \<and>
    guest_calls (sample_guest_end 100) = script_plan sample_argv [] (storage_mb kb) ctr mnt"
  using vm_build_script_success [OF sample_guest_succeeds] by blast

lemma vm_build_script_stops_witness:
  "stopped (sample_guest 14) (guest_calls (sample_guest_end 14)) 0 1 \<and> guest_stderr (sample_guest_end 14) \<noteq> []"
proof -
  have "strip_newlines (sample_oom n) \<noteq> []" for n by (simp add: sample_oom_def strip_newlines_def)
  then show ?thesis
    using vm_build_script_stops [of "sample_guest 14" sample_oom sample_argv "[]" 0] sample_guest_fails
    by (simp add: bad_report_def)
qed

lemma storage_leaves_quarter_witness: "storage_mb 4039432 = 2958"
  using storage_leaves_quarter [OF sample_outputs(1)] by simp

lemma sample_host_boots:
  "boots_script (host_api (sample_host 0)) (sample_guest 100) sample_oom (\<lambda>_. 0)"
  by (simp add: boots_script_def sample_host_def sample_guest_succeeds)

lemma sample_host_runs:
  assumes "passable b"
  shows "krun_run (sample_host 0) InChild b = Some (Process_exit 0)"
    and "krun_run (sample_host 0) InParent b = Some (Came_back (Ok ()))"
proof -
  show child: "krun_run (sample_host 0) InChild b = Some (Process_exit 0)"
    using krun_run_child(1) [OF assms sample_host_facts(2), of 0] by (simp add: sample_host_facts(4))
  show "krun_run (sample_host 0) InParent b = Some (Came_back (Ok ()))"
    using krun_run_exited [OF assms sample_host_facts(2) child sample_host_facts(3)]
    by (simp add: sample_host_facts(4) EXIT_SETUP_FAILED_def EXIT_ENTER_FAILED_def)
qed

lemma vm_success_builds_image_witness:
  "\<exists>argv mnt calls.
    perform (sample_guest 100) calls 0 \<noteq> None \<and>
    Exec [''tar'', ''-cf'', guest_output argv, ''-C'', mnt, ''.''] \<in> set calls \<and>
    host_path (boot_log (sample_host 0) sample_build) guest_mounts (guest_output argv) =
      Some (output_path sample_build)"
  using vm_success_builds_image [OF sample_host_runs(2) sample_host_boots sample_host_runs(1) sample_host_facts(3)]
    sample_host_facts(1) by blast

end
