(* ===== verification/RootfsScript.thy ===== *)
theory RootfsScript
  imports Guest Shell
begin

text \<open>
  \<open>crates/vm-image-builder/vm-image/make-rootfs.sh\<close>, which makes the root filesystem of the build VM and packs
  the archive that the build script embeds. What it calls (\<open>podman\<close>, \<open>tar\<close> and the others) is a function of the
  call and the state; the script is the order of the calls under \<open>set -e\<close>, the values it takes from one
  into a later one, and the handler that removes what it made for the time of the run.
\<close>

subsection \<open>The calls\<close>

datatype destination = Inherited | Into string | To_stderr | Discarded

text \<open>\<open>Script_dir\<close> is the substitution \<open>$(cd "$(dirname "$0")" && pwd)\<close>; \<open>Run\<close> has the variables set for a
  program, its words and where its output goes.\<close>

datatype rootfs_call =
    Script_dir string
  | Run "string list" "string list" destination

abbreviation run_tool :: "string list \<Rightarrow> rootfs_call" where
  "run_tool ws \<equiv> Run [] ws Inherited"

abbreviation echo :: "string \<Rightarrow> rootfs_call" where
  "echo line \<equiv> run_tool [''echo'', line]"

text \<open>\<open>${x:-default}\<close>, where an unset variable reads as empty.\<close>

definition or_default :: "string \<Rightarrow> string \<Rightarrow> string" where
  "or_default d x = (if x = [] then d else x)"

definition IMAGE :: string where
  "IMAGE = ''openshell-vm-rootfs''"

definition rootfs_arg :: "string list \<Rightarrow> string" where
  "rootfs_arg argv = or_default ''./vm-rootfs'' (positional argv 0)"

definition archive_arg :: "string list \<Rightarrow> string" where
  "archive_arg argv = positional argv 1"

definition podman_check :: rootfs_call where
  "podman_check = Run [] [''command'', ''-v'', ''podman''] Discarded"

definition image_calls :: "string \<Rightarrow> string \<Rightarrow> rootfs_call list" where
  "image_calls dir dest =
     [echo ''Building rootfs image for linux/arm64...'',
      run_tool [''podman'', ''build'', ''--platform'', ''linux/arm64'', ''--tag'', IMAGE,
        ''--file'', dir @ ''/Containerfile'', dir],
      echo (''Exporting rootfs to '' @ dest @ ''...''),
      run_tool [''mkdir'', ''-p'', dest]]"

definition create_call :: rootfs_call where
  "create_call = run_tool [''podman'', ''create'', ''--platform'', ''linux/arm64'', IMAGE]"

definition mktemp_call :: "string \<Rightarrow> rootfs_call" where
  "mktemp_call tmpdir = run_tool [''mktemp'', or_default ''/tmp'' tmpdir @ ''/openshell-rootfs.XXXXXX'']"

text \<open>What \<open>printf\<close> is given, with the escapes of the format replaced.\<close>

definition rootfs_resolv_conf :: string where
  "rootfs_resolv_conf = ''nameserver 1.1.1.1'' @ [newline] @ ''options use-vc'' @ [newline]"

definition pack_calls :: "string \<Rightarrow> string \<Rightarrow> rootfs_call list" where
  "pack_calls dest out =
     (if out = [] then []
      else [echo (''Packing rootfs into '' @ out @ ''...''),
        Run [''COPYFILE_DISABLE=1''] [''tar'', ''-C'', dest, ''-cf'', out, ''.''] Inherited])"

definition report_calls :: "string \<Rightarrow> string \<Rightarrow> rootfs_call list" where
  "report_calls dest out =
     [echo '''', echo (''Rootfs ready at: '' @ dest)] @
     (if out = [] then []
      else [echo (''Archive ready at: '' @ out), echo '''', echo ''Embed it in the binary:'',
        echo (''  OPENSHELL_BUILD_IMAGE_VM_ROOTFS_ARCHIVE='' @ out @ '' '' @ [CHR 0x5C]),
        echo ''    cargo build --release --features vm'']) @
     [echo '''', echo ''Build an image with it:'',
      echo (''  openshell-build-image --runtime vm --from registry.example.com/myproject:dev --vm-rootfs ''
        @ dest @ '' myimage:latest'')]"

definition export_rootfs_calls :: "string \<Rightarrow> string \<Rightarrow> string \<Rightarrow> string \<Rightarrow> rootfs_call list" where
  "export_rootfs_calls container archive dest out =
     [Run [] [''podman'', ''export'', container] (Into archive),
      run_tool [''tar'', ''-C'', dest, ''-xf'', archive],
      Run [] [''printf'', rootfs_resolv_conf] (Into (dest @ ''/etc/resolv.conf''))] @
     pack_calls dest out @ report_calls dest out"

definition remove_archive :: "string \<Rightarrow> rootfs_call" where
  "remove_archive archive = run_tool [''rm'', ''-f'', archive]"

definition remove_container :: "string \<Rightarrow> rootfs_call" where
  "remove_container container = Run [] [''podman'', ''rm'', container] Discarded"

subsection \<open>The script\<close>

definition require_podman :: "(rootfs_call, 'g) programs \<Rightarrow> ((rootfs_call, 'g) shell, int, unit) action" where
  "require_podman S s =
     (case invoke S podman_check s of
        (Inr _, s1) \<Rightarrow> (Ok (), s1)
      | (Inl _, s1) \<Rightarrow>
          go_on (invoke S (Run [] [''echo'', ''error: podman is required to build the rootfs''] To_stderr))
            (\<lambda>_ s2. (Err 1, s2)) s1)"

text \<open>The handler: what \<open>podman rm\<close> says is ignored (\<open>|| true\<close>), but \<open>set -e\<close> holds for \<open>rm\<close>.\<close>

definition cleanup ::
  "(rootfs_call, 'g) programs \<Rightarrow> string \<Rightarrow> string \<Rightarrow> ((rootfs_call, 'g) shell, int, unit) action" where
  "cleanup S archive container =
     go_on (invoke S (remove_archive archive)) (\<lambda>_ s. (Ok (), snd (invoke S (remove_container container) s)))"

definition make_rootfs ::
  "(rootfs_call, 'g) programs \<Rightarrow> string \<Rightarrow> string list \<Rightarrow> string \<Rightarrow> ((rootfs_call, 'g) shell, int, unit) action" where
  "make_rootfs S script argv tmpdir =
     go_on (invoke S (Script_dir script)) (\<lambda>dir.
     go_on (require_podman S) (\<lambda>_.
     go_on (invoke_all S (image_calls dir (rootfs_arg argv))) (\<lambda>_.
     go_on (invoke S create_call) (\<lambda>container.
     go_on (invoke S (mktemp_call tmpdir)) (\<lambda>archive.
       trapped (invoke_all S (export_rootfs_calls container archive (rootfs_arg argv) (archive_arg argv)))
         (cleanup S archive container))))))"

subsection \<open>What the script does\<close>

definition before_container :: "string \<Rightarrow> string list \<Rightarrow> string \<Rightarrow> rootfs_call list" where
  "before_container script argv dir = [Script_dir script, podman_check] @ image_calls dir (rootfs_arg argv)"

definition temporaries_made :: "string \<Rightarrow> string list \<Rightarrow> string \<Rightarrow> string \<Rightarrow> rootfs_call list" where
  "temporaries_made script argv tmpdir dir = before_container script argv dir @ [create_call, mktemp_call tmpdir]"

text \<open>The values the script takes from the calls that gave them.\<close>

definition rootfs_values ::
  "(rootfs_call, 'g) programs \<Rightarrow> string \<Rightarrow> string list \<Rightarrow> string \<Rightarrow> 'g \<Rightarrow> string \<Rightarrow> string \<Rightarrow> string \<Rightarrow> bool" where
  "rootfs_values S script argv tmpdir g0 dir container archive =
     (value_after S [] (Script_dir script) g0 = Some dir \<and>
      value_after S (before_container script argv dir) create_call g0 = Some container \<and>
      value_after S (before_container script argv dir @ [create_call]) (mktemp_call tmpdir) g0 = Some archive)"

lemma require_podman_Ok [shell_simps]:
  "require_podman S s = (Inr u, s') \<longleftrightarrow> (\<exists>v. invoke S podman_check s = (Inr v, s'))"
  by (auto simp: require_podman_def go_on_def split: prod.splits sum.splits)

lemma cleanup_Ok [shell_simps]:
  "cleanup S archive container s = (Inr u, s') \<longleftrightarrow>
     (\<exists>v s1. invoke S (remove_archive archive) s = (Inr v, s1) \<and> s' = snd (invoke S (remove_container container) s1))"
  by (auto simp: cleanup_def shell_simps)

lemma snd_invoke: "snd (invoke S c s) = (snd (S c (fst s)), snd s @ [c])"
  by (simp add: invoke_def split: prod.splits)

lemma make_rootfs_Ok:
  assumes "make_rootfs S script argv tmpdir (g0, []) = (Ok (), (g, calls))"
  shows "\<exists>dir container archive g1. rootfs_values S script argv tmpdir g0 dir container archive \<and>
    perform S (temporaries_made script argv tmpdir dir @
      export_rootfs_calls container archive (rootfs_arg argv) (archive_arg argv) @ [remove_archive archive]) g0 = Some g1 \<and>
    g = snd (S (remove_container container) g1) \<and>
    calls = temporaries_made script argv tmpdir dir @
      export_rootfs_calls container archive (rootfs_arg argv) (archive_arg argv) @
      [remove_archive archive, remove_container container]"
  using assms unfolding make_rootfs_def
  by (auto simp: shell_simps snd_invoke rootfs_values_def value_after_def temporaries_made_def before_container_def
      perform_append)

text \<open>Once the temporary file has its name, the handler is in place.\<close>

lemma make_rootfs_from_trap:
  assumes "rootfs_values S script argv tmpdir g0 dir container archive"
    "perform S (temporaries_made script argv tmpdir dir) g0 = Some g"
  shows "make_rootfs S script argv tmpdir (g0, []) =
    trapped (invoke_all S (export_rootfs_calls container archive (rootfs_arg argv) (archive_arg argv)))
      (cleanup S archive container) (g, temporaries_made script argv tmpdir dir)"
proof -
  obtain g1 g2 g3 g4 out1 out2 out3 out4 where runs:
    "S (Script_dir script) g0 = ((0, out1), g1)" "S podman_check g1 = ((0, out2), g2)"
    "perform S (image_calls dir (rootfs_arg argv)) g2 = Some g3" "S create_call g3 = ((0, out3), g4)"
    "S (mktemp_call tmpdir) g4 = ((0, out4), g)"
    using assms(2) unfolding temporaries_made_def before_container_def
    by (auto simp: perform_append bind_eq_Some_conv perform_Cons_Some simp del: perform.simps(2))
  moreover from runs have "strip_newlines out1 = dir" "strip_newlines out3 = container" "strip_newlines out4 = archive"
    using assms(1) by (simp_all add: rootfs_values_def value_after_def before_container_def perform_append)
  ultimately have
    "invoke S (Script_dir script) (g0, []) = (Inr dir, (g1, [Script_dir script]))"
    "require_podman S (g1, [Script_dir script]) = (Inr (), (g2, [Script_dir script, podman_check]))"
    "invoke_all S (image_calls dir (rootfs_arg argv)) (g2, [Script_dir script, podman_check]) =
      (Inr (), (g3, before_container script argv dir))"
    "invoke S create_call (g3, before_container script argv dir) =
      (Inr container, (g4, before_container script argv dir @ [create_call]))"
    "invoke S (mktemp_call tmpdir) (g4, before_container script argv dir @ [create_call]) =
      (Inr archive, (g, temporaries_made script argv tmpdir dir))"
    by (simp_all add: shell_simps before_container_def temporaries_made_def)
  then show ?thesis unfolding make_rootfs_def by (simp add: go_on_run)
qed

text \<open>What the handler does, by the status of its \<open>rm\<close>.\<close>

lemma cleanup_run:
  "cleanup S archive container (g, cs) =
     (let ((rc, out), g1) = S (remove_archive archive) g in
      if rc = 0 then (Ok (), (snd (S (remove_container container) g1), cs @ [remove_archive archive, remove_container container]))
      else (Err rc, (g1, cs @ [remove_archive archive])))"
  by (simp add: cleanup_def go_on_def invoke_def split: prod.split)

text \<open>C38. When the script ends with 0, its calls are exactly those of its plan, in order, with the values the
  calls before gave: the image built from the directory of the script, a container of it exported and unpacked
  into the rootfs, the fallback resolver written over it, and only then the tree packed into the archive,
  if one was asked for. All of them succeeded, but the last, whose outcome the script ignores.\<close>
theorem make_rootfs_success:
  assumes "make_rootfs S script argv tmpdir (g0, []) = (Ok (), (g, calls))"
  shows "\<exists>dir container archive g1. rootfs_values S script argv tmpdir g0 dir container archive \<and>
    perform S (temporaries_made script argv tmpdir dir @
      export_rootfs_calls container archive (rootfs_arg argv) (archive_arg argv) @ [remove_archive archive]) g0 = Some g1 \<and>
    g = snd (S (remove_container container) g1) \<and>
    calls = temporaries_made script argv tmpdir dir @
      export_rootfs_calls container archive (rootfs_arg argv) (archive_arg argv) @
      [remove_archive archive, remove_container container]"
  using assms by (rule make_rootfs_Ok)

text \<open>C39. Whatever fails once the temporary file has its name, the script removes that file at its end,
  and then, unless that removal itself fails, the container. It ends with the status of a removal
  of the file that fails, otherwise with that of the call that failed, otherwise with 0 - then all of its
  calls were made and succeeded.\<close>
theorem make_rootfs_cleans_up:
  assumes "rootfs_values S script argv tmpdir g0 dir container archive"
    "perform S (temporaries_made script argv tmpdir dir) g0 \<noteq> None"
    "make_rootfs S script argv tmpdir (g0, []) = (r, (g, calls))"
  shows "\<exists>more made rc.
    prefix more (export_rootfs_calls container archive (rootfs_arg argv) (archive_arg argv)) \<and>
    made = temporaries_made script argv tmpdir dir @ more \<and>
    rc = fst (fst (S (remove_archive archive) (after_calls S made g0))) \<and>
    calls = made @ remove_archive archive # (if rc = 0 then [remove_container container] else []) \<and>
    (if rc \<noteq> 0 then r = Err rc
     else case r of
       Inl e \<Rightarrow> stopped S made g0 e
     | Inr _ \<Rightarrow> more = export_rootfs_calls container archive (rootfs_arg argv) (archive_arg argv) \<and>
         perform S made g0 \<noteq> None)"
proof -
  let ?cs = "export_rootfs_calls container archive (rootfs_arg argv) (archive_arg argv)"
    and ?tmps = "temporaries_made script argv tmpdir dir"
  obtain g1 where g1: "perform S ?tmps g0 = Some g1" using assms(2) by auto
  from make_rootfs_from_trap [OF assms(1) this] assms(3)
  have t: "trapped (invoke_all S ?cs) (cleanup S archive container) (g1, ?tmps) = (r, (g, calls))" by simp
  obtain r1 g2 cs2 where b: "invoke_all S ?cs (g1, ?tmps) = (r1, (g2, cs2))" by (metis prod.exhaust)
  obtain more where more: "prefix more ?cs" "g2 = after_calls S more g1" "cs2 = ?tmps @ more"
    using invoke_all_calls [of ?cs S "(g1, ?tmps)"] b by auto
  let ?made = "?tmps @ more"
  have g2: "g2 = after_calls S ?made g0" using more(2) perform_after [OF g1] by (simp add: after_calls_append)
  have body: "case r1 of Inl e \<Rightarrow> stopped S ?made g0 e | Inr _ \<Rightarrow> more = ?cs \<and> perform S ?made g0 \<noteq> None"
  proof (cases r1)
    case (Inl e)
    with withinD [OF within_invoke_all b] more(3) have "stopped S more g1 e" by auto
    with stopped_append [OF g1 this] Inl show ?thesis by simp
  next
    case (Inr u)
    with withinD [OF within_invoke_all b] more(3) g1 show ?thesis by (auto simp: perform_append)
  qed
  obtain rc out g3 where rm: "S (remove_archive archive) (after_calls S ?made g0) = ((rc, out), g3)"
    by (metis prod.exhaust)
  have "r = (if rc = 0 then r1 else Err rc) \<and>
      calls = ?made @ remove_archive archive # (if rc = 0 then [remove_container container] else [])"
    using t rm by (auto simp: trapped_def b cleanup_run more(3) g2 split: if_splits)
  then show ?thesis
    using more(1) body rm by (intro exI [of _ more] exI [of _ ?made] exI [of _ rc]) simp
qed

text \<open>Before that there is no handler: where \<open>mktemp\<close> fails, the container that was just created is left.\<close>

lemma make_rootfs_leaves_container:
  assumes "value_after S [] (Script_dir script) g0 = Some dir"
    "perform S (before_container script argv dir @ [create_call]) g0 = Some g1"
    "S (mktemp_call tmpdir) g1 = ((rc, out), g2)" "rc \<noteq> 0"
  shows "make_rootfs S script argv tmpdir (g0, []) = (Err rc, (g2, temporaries_made script argv tmpdir dir))"
proof -
  obtain h1 h2 h3 out1 out2 out3 where runs:
    "S (Script_dir script) g0 = ((0, out1), h1)" "S podman_check h1 = ((0, out2), h2)"
    "perform S (image_calls dir (rootfs_arg argv)) h2 = Some h3" "S create_call h3 = ((0, out3), g1)"
    using assms(2) unfolding before_container_def
    by (auto simp: perform_append bind_eq_Some_conv perform_Cons_Some simp del: perform.simps(2))
  moreover from this have "strip_newlines out1 = dir" using assms(1) by (simp add: value_after_def)
  ultimately have
    "invoke S (Script_dir script) (g0, []) = (Inr dir, (h1, [Script_dir script]))"
    "require_podman S (h1, [Script_dir script]) = (Inr (), (h2, [Script_dir script, podman_check]))"
    "invoke_all S (image_calls dir (rootfs_arg argv)) (h2, [Script_dir script, podman_check]) =
      (Inr (), (h3, before_container script argv dir))"
    "invoke S create_call (h3, before_container script argv dir) =
      (Inr (strip_newlines out3), (g1, before_container script argv dir @ [create_call]))"
    by (simp_all add: shell_simps before_container_def)
  moreover have "invoke S (mktemp_call tmpdir) (g1, before_container script argv dir @ [create_call]) =
      (Inl rc, (g2, temporaries_made script argv tmpdir dir))"
    using assms(3,4) by (simp add: invoke_def temporaries_made_def)
  ultimately show ?thesis unfolding make_rootfs_def by (simp add: go_on_run) (simp add: go_on_def)
qed

text \<open>The resolver of the rootfs is the fallback of the host's side.\<close>

lemma rootfs_resolver_is_fallback: "parse_resolv_conf rootfs_resolv_conf = [FALLBACK_NAMESERVER]"
  by code_simp

subsection \<open>A run of the script\<close>

text \<open>Programs of which each call succeeds but the one numbered \<open>bad\<close>; the state counts the calls.\<close>

definition sample_tools :: "nat \<Rightarrow> (rootfs_call, nat) programs" where
  "sample_tools bad c n =
     ((if n = bad then 1 else 0,
       (case c of
          Script_dir _ \<Rightarrow> ''/vm-image''
        | Run _ ws _ \<Rightarrow> if c = create_call then ''c0ffee'' @ [newline]
            else if c = mktemp_call [] then ''/tmp/openshell-rootfs.a'' @ [newline] else [])), Suc n)"

abbreviation sample_rootfs_run ::
  "nat \<Rightarrow> (int, unit) result \<times> nat \<times> rootfs_call list" where
  "sample_rootfs_run bad \<equiv> make_rootfs (sample_tools bad) ''./make-rootfs.sh'' [''rootfs'', ''rootfs.tar''] [] (0, [])"

lemma sample_rootfs_runs: "fst (sample_rootfs_run 100) = Ok ()" "fst (sample_rootfs_run 9) = Err 1"
  by code_simp+

lemma make_rootfs_success_witness:
  "\<exists>dir container archive. rootfs_values (sample_tools 100) ''./make-rootfs.sh'' [''rootfs'', ''rootfs.tar''] [] 0 dir container archive \<and>
    Run [''COPYFILE_DISABLE=1''] [''tar'', ''-C'', ''rootfs'', ''-cf'', ''rootfs.tar'', ''.''] Inherited \<in> set (snd (snd (sample_rootfs_run 100)))"
proof -
  obtain g calls where run: "sample_rootfs_run 100 = (Ok (), (g, calls))"
    using sample_rootfs_runs(1) by (metis prod.collapse)
  have args: "rootfs_arg [''rootfs'', ''rootfs.tar''] = ''rootfs''" "archive_arg [''rootfs'', ''rootfs.tar''] = ''rootfs.tar''"
    by code_simp+
  show ?thesis using make_rootfs_success [OF run] run
    by (auto simp: args export_rootfs_calls_def pack_calls_def)
qed

lemma make_rootfs_cleans_up_witness:
  "\<exists>more rest. snd (snd (sample_rootfs_run 9)) =
     more @ remove_archive ''/tmp/openshell-rootfs.a'' # rest \<and> fst (sample_rootfs_run 9) = Err 1"
proof -
  have v: "rootfs_values (sample_tools 9) ''./make-rootfs.sh'' [''rootfs'', ''rootfs.tar''] [] 0
      ''/vm-image'' ''c0ffee'' ''/tmp/openshell-rootfs.a''"
    "perform (sample_tools 9) (temporaries_made ''./make-rootfs.sh'' [''rootfs'', ''rootfs.tar''] [] ''/vm-image'') 0 \<noteq> None"
    by code_simp+
  obtain g calls where run: "sample_rootfs_run 9 = (Err 1, (g, calls))"
    using sample_rootfs_runs(2) by (metis prod.collapse)
  from make_rootfs_cleans_up [OF v run] obtain made and rc :: int where
    "calls = made @ remove_archive ''/tmp/openshell-rootfs.a'' #
      (if rc = 0 then [remove_container ''c0ffee''] else [])" by blast
  with run show ?thesis by (simp only: fst_conv snd_conv) blast
qed

end
