(* ===== verification/Containerfile.thy ===== *)
theory Containerfile
  imports Text
begin

text \<open>
  \<open>src/containerfile.rs\<close>: the check of the project image's reference and the Containerfile
  generated around it. The lemmas give the generated text line by line, which is what keeps a
  reference from adding an instruction of its own. The \<open>Debug\<close> form of a string in the error
  message is the standard library's; which characters beyond ASCII it prints as they are is a
  Unicode table, and a parameter here.
\<close>

datatype containerfile_error = InvalidImageReference string

subsection \<open>\<open>Debug\<close> of a string\<close>

definition escape_debug :: "(nat \<Rightarrow> bool) \<Rightarrow> utf8_piece \<Rightarrow> string" where
  "escape_debug unicode_printable p =
     (let c = piece_char p in
      if c = 0 then [CHR 0x5C, CHR ''0'']
      else if c = 9 then [CHR 0x5C, CHR ''t'']
      else if c = 13 then [CHR 0x5C, CHR ''r'']
      else if c = 10 then [CHR 0x5C, CHR ''n'']
      else if c = 0x22 \<or> c = 0x5C then CHR 0x5C # piece_bytes p
      else if (0x20 \<le> c \<and> c < 0x7F) \<or> (0x80 \<le> c \<and> unicode_printable c) then piece_bytes p
      else [CHR 0x5C, CHR ''u'', CHR ''{''] @ fmt_hex c @ ''}'')"

definition debug_str :: "(nat \<Rightarrow> bool) \<Rightarrow> string \<Rightarrow> string" where
  "debug_str unicode_printable s =
     [CHR 0x22] @ concat (map (escape_debug unicode_printable) (decode s)) @ [CHR 0x22]"

definition containerfile_error_display ::
  "(nat \<Rightarrow> bool) \<Rightarrow> containerfile_error \<Rightarrow> string" where
  "containerfile_error_display unicode_printable e =
     (case e of InvalidImageReference img \<Rightarrow>
        ''invalid image reference '' @ debug_str unicode_printable img
        @ '': expected a nonempty reference without whitespace or control characters'')"

subsection \<open>The check and the text\<close>

definition parse_image_reference :: "string \<Rightarrow> (containerfile_error, string) result" where
  "parse_image_reference img =
     (if img = [] \<or> list_ex (\<lambda>c. is_whitespace c \<or> is_control c) (chars img)
      then Err (InvalidImageReference img)
      else Ok img)"

definition final_stage :: "bool \<Rightarrow> string" where
  "final_stage copy_containerfile =
     (let containerfile_section =
        (if copy_containerfile then
           ''COPY build-containerfile /tmp/build-containerfile'' @ [newline]
           @ ''RUN cp /tmp/build-containerfile '' @ [CHR 0x22] @ ''$HOME/Containerfile'' @ [CHR 0x22]
           @ '' && rm /tmp/build-containerfile'' @ [newline] @ [newline]
         else '''')
      in ''# Final base image'' @ [newline]
         @ ''FROM system AS final'' @ [newline]
         @ [newline]
         @ containerfile_section @ [newline])"

definition generate :: "string \<Rightarrow> bool \<Rightarrow> (containerfile_error, string) result" where
  "generate from copy_containerfile =
     (case parse_image_reference from of
        Inl e \<Rightarrow> Inl e
      | Inr img \<Rightarrow>
          Ok (''# System base'' @ [newline]
              @ ''FROM '' @ img @ '' AS system'' @ [newline]
              @ [newline]
              @ ''USER 0'' @ [newline]
              @ [newline]
              @ final_stage copy_containerfile))"

subsection \<open>A reference that passes the check\<close>

lemma parse_image_reference_Ok:
  "parse_image_reference img = Ok x \<longleftrightarrow>
     x = img \<and> img \<noteq> [] \<and> (\<forall>c\<in>set (chars img). \<not> is_whitespace c \<and> \<not> is_control c)"
  by (auto simp: parse_image_reference_def list_ex_iff)

lemma parse_image_reference_byte:
  assumes "parse_image_reference img = Ok x" "c \<in> set img" "is_ascii c"
  shows "\<not> is_whitespace (byte c) \<and> \<not> is_control (byte c)"
  using assms ascii_byte_in_chars by (auto simp: parse_image_reference_Ok)

lemma parse_image_reference_plain:
  assumes "parse_image_reference img = Ok x"
  shows "plain_line img"
  using parse_image_reference_byte [OF assms, of newline]
    parse_image_reference_byte [OF assms, of carriage_return]
  by (auto simp: plain_line_def is_ascii_def is_control_def)

text \<open>An ASCII reference is accepted exactly when it is not empty and every byte of it is a
  printable, non-blank ASCII character.\<close>

lemma generate_accepts_ascii:
  assumes "ascii img"
  shows "is_ok (generate img copy) \<longleftrightarrow>
           img \<noteq> [] \<and> (\<forall>c\<in>set img. 0x21 \<le> byte c \<and> byte c \<le> 0x7E)"
proof -
  have "is_ok (generate img copy) \<longleftrightarrow> (\<exists>x. parse_image_reference img = Ok x)"
    by (cases "parse_image_reference img") (simp_all add: generate_def)
  also have "\<dots> \<longleftrightarrow> img \<noteq> [] \<and> (\<forall>c\<in>set img. \<not> is_whitespace (byte c) \<and> \<not> is_control (byte c))"
    using assms by (simp add: parse_image_reference_Ok chars_ascii)
  also have "\<dots> \<longleftrightarrow> img \<noteq> [] \<and> (\<forall>c\<in>set img. 0x21 \<le> byte c \<and> byte c \<le> 0x7E)"
  proof -
    have "\<not> is_whitespace n \<and> \<not> is_control n \<longleftrightarrow> 0x21 \<le> n \<and> n \<le> 0x7E" if "n < 0x80" for n
      using that by (auto simp: is_whitespace_def is_control_def)
    then show ?thesis using assms by (simp add: ascii_def list_all_iff is_ascii_def)
  qed
  finally show ?thesis .
qed

subsection \<open>The generated text, line by line\<close>

definition copy_lines :: "string list" where
  "copy_lines =
     [''COPY build-containerfile /tmp/build-containerfile'',
      ''RUN cp /tmp/build-containerfile '' @ [CHR 0x22] @ ''$HOME/Containerfile'' @ [CHR 0x22]
        @ '' && rm /tmp/build-containerfile'']"

definition containerfile_lines :: "string \<Rightarrow> bool \<Rightarrow> string list" where
  "containerfile_lines img copy =
     [''# System base'', ''FROM '' @ img @ '' AS system'', [], ''USER 0'', [],
      ''# Final base image'', ''FROM system AS final'', []]
     @ (if copy then copy_lines @ [[]] else []) @ [[]]"

lemma generate_unlines:
  "generate img copy =
     (case parse_image_reference img of
        Inl e \<Rightarrow> Inl e | Inr x \<Rightarrow> Inr (unlines (containerfile_lines x copy)))"
  by (simp add: generate_def final_stage_def containerfile_lines_def copy_lines_def unlines_def Let_def
      split: sum.split)

lemma plain_line_simps [text_simps]:
  "plain_line []" "plain_line (c # s) \<longleftrightarrow> c \<noteq> newline \<and> c \<noteq> carriage_return \<and> plain_line s"
  "plain_line (s @ t) \<longleftrightarrow> plain_line s \<and> plain_line t"
  by (auto simp: plain_line_def)

lemma containerfile_lines_plain:
  "plain_line img \<Longrightarrow> list_all plain_line (containerfile_lines img copy)"
  by (simp add: containerfile_lines_def copy_lines_def text_simps)

lemma generate_lines:
  assumes "generate img copy = Ok cf"
  shows "lines cf = containerfile_lines img copy"
  using assms parse_image_reference_plain [of img] containerfile_lines_plain [of img copy]
  by (auto simp: generate_unlines parse_image_reference_Ok lines_unlines split: sum.splits)

text \<open>The instructions of a Containerfile: its lines without the comments and the empty ones.\<close>

definition instructions :: "string \<Rightarrow> string list" where
  "instructions cf = filter (\<lambda>l. l \<noteq> [] \<and> hd l \<noteq> CHR ''#'') (lines cf)"

text \<open>C22. The Containerfile generated for an accepted reference has exactly these instructions:
  the stage on the project image, the switch to root, the final stage, and the copy of the
  Containerfile when it was asked for. No reference adds, removes or splits an instruction.\<close>

theorem generate_instructions:
  assumes "generate img copy = Ok cf"
  shows "instructions cf =
           [''FROM '' @ img @ '' AS system'', ''USER 0'', ''FROM system AS final'']
           @ (if copy then copy_lines else [])"
  using generate_lines [OF assms]
  by (simp add: instructions_def containerfile_lines_def copy_lines_def)

theorem generate_instructions_witness:
  "\<exists>cf. generate ''alpine:3.24'' True = Ok cf \<and>
     instructions cf = [''FROM alpine:3.24 AS system'', ''USER 0'', ''FROM system AS final''] @ copy_lines"
proof -
  have "ascii ''alpine:3.24''" by (simp add: is_ascii_def)
  then have "parse_image_reference ''alpine:3.24'' = Ok ''alpine:3.24''"
    by (simp add: parse_image_reference_Ok chars_ascii is_whitespace_def is_control_def)
  then obtain cf where "generate ''alpine:3.24'' True = Ok cf" by (simp add: generate_def)
  then show ?thesis using generate_instructions [of "''alpine:3.24''" True cf] by simp
qed

subsection \<open>The error message\<close>

definition ascii_control :: "char \<Rightarrow> bool" where
  "ascii_control c = (byte c < 0x20 \<or> byte c = 0x7F)"

lemma utf8_step_piece:
  assumes "utf8_step c cs = (p, rest)"
  shows "(\<exists>n. p = Scalar n [c] \<and> n = byte c \<and> n < 0x80) \<or>
         (\<forall>d\<in>set (piece_bytes p). 0x80 \<le> byte d)"
  using assms
  by (auto simp: utf8_step_def Let_def utf8_width_def second_ok_def is_cont_def
      split: if_splits list.splits)

lemma decode_piece:
  "p \<in> set (decode s) \<Longrightarrow>
     (\<exists>c. p = Scalar (byte c) [c] \<and> byte c < 0x80) \<or> (\<forall>d\<in>set (piece_bytes p). 0x80 \<le> byte d)"
proof (induction s rule: decode.induct)
  case (2 c cs)
  obtain q rest where step: "utf8_step c cs = (q, rest)" by fastforce
  with "2.prems" have "p = q \<or> p \<in> set (decode rest)" by simp
  then show ?case
  proof
    assume "p = q"
    with utf8_step_piece [OF step] show ?thesis by blast
  next
    assume "p \<in> set (decode rest)"
    with "2.IH" [OF step [symmetric]] show ?thesis by blast
  qed
qed simp

lemma fmt_hex_no_control: "c \<in> set (fmt_hex n) \<Longrightarrow> \<not> ascii_control c"
  using fmt_radix_digits [of 16 c n]
  by (auto simp: ascii_control_def byte_digit_char split: if_splits)

lemma escape_debug_no_control:
  assumes "p \<in> set (decode s)" "c \<in> set (escape_debug u p)"
  shows "\<not> ascii_control c"
  using decode_piece [OF assms(1)]
proof
  assume "\<exists>d. p = Scalar (byte d) [d] \<and> byte d < 0x80"
  then show ?thesis
    using assms(2) fmt_hex_no_control
    by (auto simp: escape_debug_def Let_def ascii_control_def split: if_splits)
next
  assume "\<forall>d\<in>set (piece_bytes p). 0x80 \<le> byte d"
  then show ?thesis
    using assms(2) fmt_hex_no_control
    by (force simp: escape_debug_def Let_def ascii_control_def split: if_splits)
qed

text \<open>The message about a rejected reference carries no control byte of it: whatever the
  reference was, the message is one line and cannot drive the terminal.\<close>

lemma containerfile_error_display_no_control:
  "list_all (\<lambda>c. \<not> ascii_control c) (containerfile_error_display unicode_printable e)"
proof (cases e)
  case (InvalidImageReference img)
  have "list_all (\<lambda>c. \<not> ascii_control c) (debug_str unicode_printable img)"
    using escape_debug_no_control
    by (auto simp: debug_str_def list_all_iff) (simp add: ascii_control_def)
  then show ?thesis
    using InvalidImageReference by (simp add: containerfile_error_display_def ascii_control_def)
qed

end
