(* ===== verification/ContainerBuilder.thy ===== *)
theory ContainerBuilder
  imports FileSystem
begin

text \<open>
  \<open>crates/container-image-builder/src/lib.rs\<close>: the container command line tools, the check that
  one is installed, the errors, and \<open>build\<close>. The \<open>which\<close> crate is a predicate on names. The
  \<open>tempfile\<close> crate is the record \<open>tempfiles\<close> of its calls; what the code relies on of it is
  \<open>tempfile_laws\<close>: a new temporary is a new entry, and removing it touches nothing else and, where it
  does not fail, takes the whole entry away. A \<open>Runner\<close> is any function of the command and the world.
\<close>

datatype container_cli = Podman | Docker | MacOsContainer

definition binary :: "container_cli \<Rightarrow> string" where
  "binary cli =
     (case cli of Podman \<Rightarrow> ''podman'' | Docker \<Rightarrow> ''docker'' | MacOsContainer \<Rightarrow> ''container'')"

datatype runtime_not_found = RuntimeNotFound string

definition check_in_path :: "(string \<Rightarrow> bool) \<Rightarrow> container_cli \<Rightarrow> (runtime_not_found, unit) result" where
  "check_in_path which cli = (if which (binary cli) then Ok () else Err (RuntimeNotFound (binary cli)))"

definition not_found_display :: "runtime_not_found \<Rightarrow> string" where
  "not_found_display e =
     (case e of RuntimeNotFound name \<Rightarrow>
        [CHR 0x27] @ name @ [CHR 0x27] @ '' not found in PATH '' @ [CHR 0xE2, CHR 0x80, CHR 0x94]
        @ '' install it or choose a different --runtime'')"

datatype build_error = BuildIo io_error | BuildFailed "int option"

definition build_error_display :: "build_error \<Rightarrow> string" where
  "build_error_display e =
     (case e of
        BuildIo err \<Rightarrow> ''I/O error: '' @ io_display err
      | BuildFailed (Some code) \<Rightarrow> ''container build failed with exit code '' @ fmt_int code
      | BuildFailed None \<Rightarrow> ''container build was terminated by a signal'')"

definition build_error_source :: "build_error \<Rightarrow> io_error option" where
  "build_error_source e = (case e of BuildIo err \<Rightarrow> Some err | BuildFailed _ \<Rightarrow> None)"

subsection \<open>Commands\<close>

record command =
  program :: string
  arguments :: "string list"

datatype exit_status = Exit_code int | Killed_by int

definition success :: "exit_status \<Rightarrow> bool" where
  "success st = (case st of Exit_code c \<Rightarrow> c = 0 | Killed_by s \<Rightarrow> False)"

definition status_code :: "exit_status \<Rightarrow> int option" where
  "status_code st = (case st of Exit_code c \<Rightarrow> Some c | Killed_by s \<Rightarrow> None)"

type_synonym runner = "command \<Rightarrow> (world, io_error, exit_status) action"

subsection \<open>Temporaries\<close>

text \<open>A temporary is the path it is known by and the entry it is. \<open>remove_temp\<close> is the removal that the
  destructor of the crate tries.\<close>

type_synonym temporary = "string \<times> string list"

record tempfiles =
  new_temp_file :: "(world, io_error, temporary) action"
  new_temp_dir :: "(world, io_error, temporary) action"
  remove_temp :: "temporary \<Rightarrow> (world, io_error, unit) action"

text \<open>A temporary that goes out of scope is removed, and an error of that is ignored.\<close>

definition drop_temp :: "tempfiles \<Rightarrow> temporary \<Rightarrow> world \<Rightarrow> world" where
  "drop_temp T tmp w = snd (remove_temp T tmp w)"

definition new_entry :: "world \<Rightarrow> node \<Rightarrow> (io_error, temporary) result \<times> world \<Rightarrow> bool" where
  "new_entry w n made =
     (case made of
        (Inl e, w') \<Rightarrow> same_files w w'
      | (Inr (p, q), w') \<Rightarrow>
          q \<noteq> [] \<and> p \<noteq> [] \<and> lookup (tree w) q = None \<and> lookup (tree w') q = Some n \<and>
          leads_to w' p q \<and> keeps {} (tree w) (tree w') \<and> cwd w' = cwd w)"

definition tempfile_laws :: "tempfiles \<Rightarrow> bool" where
  "tempfile_laws T =
     ((\<forall>w. new_entry w (File 0x180 []) (new_temp_file T w)) \<and>
      (\<forall>w. new_entry w (Dir []) (new_temp_dir T w)) \<and>
      (\<forall>p q w removed w'. q \<noteq> [] \<and> remove_temp T (p, q) w = (removed, w') \<longrightarrow>
         cwd w' = cwd w \<and> keeps {s. prefix q s} (tree w) (tree w') \<and>
         (removed = Ok () \<longrightarrow> (\<forall>r. lookup (tree w') (q @ r) = None))))"

text \<open>\<open>w'\<close> is what the end of the scope of \<open>tmp\<close> makes of \<open>w\<close>: one removal was tried, and where that did
  not fail nothing of the temporary is left.\<close>

definition dropped :: "tempfiles \<Rightarrow> temporary \<Rightarrow> world \<Rightarrow> world \<Rightarrow> bool" where
  "dropped T tmp w w' =
     (\<exists>removed. remove_temp T tmp w = (removed, w') \<and>
        (removed = Ok () \<longrightarrow> (\<forall>r. lookup (tree w') (snd tmp @ r) = None)))"

subsection \<open>\<open>build\<close>\<close>

definition build_command :: "container_cli \<Rightarrow> string \<Rightarrow> string \<Rightarrow> string \<Rightarrow> command" where
  "build_command cli path tag context_dir =
     \<lparr>program = binary cli, arguments = [''build'', ''-f'', path, ''-t'', tag, context_dir]\<rparr>"

definition build_outcome :: "(io_error, exit_status) result \<Rightarrow> (build_error, unit) result" where
  "build_outcome r =
     (case r of
        Inl e \<Rightarrow> Err (BuildIo e)
      | Inr status \<Rightarrow> if success status then Ok () else Err (BuildFailed (status_code status)))"

definition container_build ::
  "tempfiles \<Rightarrow> string \<Rightarrow> string \<Rightarrow> container_cli \<Rightarrow> runner \<Rightarrow> string \<Rightarrow> (world, build_error, unit) action" where
  "container_build T containerfile tag cli runner context_dir w =
     (case new_temp_file T w of
        (Inl e, w1) \<Rightarrow> (Err (BuildIo e), w1)
      | (Inr tmpfile, w1) \<Rightarrow>
          (case write_all (snd tmpfile) containerfile w1 of
             (Inl e, w2) \<Rightarrow> (Err (BuildIo e), drop_temp T tmpfile w2)
           | (Inr _, w2) \<Rightarrow>
               (case runner (build_command cli (fst tmpfile) tag context_dir) w2 of
                  (r, w3) \<Rightarrow> (build_outcome r, drop_temp T tmpfile w3))))"

subsection \<open>What \<open>build\<close> runs and leaves\<close>

lemma new_temp_fileD:
  assumes "tempfile_laws T" "new_temp_file T w = (Inr (p, q), w')"
  shows "q \<noteq> []" "p \<noteq> []" "lookup (tree w) q = None" "lookup (tree w') q = Some (File 0x180 [])"
    "leads_to w' p q" "keeps {} (tree w) (tree w')" "cwd w' = cwd w"
proof -
  have "new_entry w (File 0x180 []) (new_temp_file T w)" using assms(1) by (simp add: tempfile_laws_def)
  then show "q \<noteq> []" "p \<noteq> []" "lookup (tree w) q = None" "lookup (tree w') q = Some (File 0x180 [])"
    "leads_to w' p q" "keeps {} (tree w) (tree w')" "cwd w' = cwd w"
    by (simp_all add: assms(2) new_entry_def)
qed

lemma new_temp_dirD:
  assumes "tempfile_laws T" "new_temp_dir T w = (Inr (p, q), w')"
  shows "q \<noteq> []" "p \<noteq> []" "lookup (tree w) q = None" "lookup (tree w') q = Some (Dir [])"
    "leads_to w' p q" "keeps {} (tree w) (tree w')" "cwd w' = cwd w"
proof -
  have "new_entry w (Dir []) (new_temp_dir T w)" using assms(1) by (simp add: tempfile_laws_def)
  then show "q \<noteq> []" "p \<noteq> []" "lookup (tree w) q = None" "lookup (tree w') q = Some (Dir [])"
    "leads_to w' p q" "keeps {} (tree w) (tree w')" "cwd w' = cwd w"
    by (simp_all add: assms(2) new_entry_def)
qed

lemma new_temp_failed:
  assumes "tempfile_laws T"
  shows "new_temp_file T w = (Inl e, w') \<Longrightarrow> same_files w w'"
    "new_temp_dir T w = (Inl e, w') \<Longrightarrow> same_files w w'"
proof -
  have "new_entry w (File 0x180 []) (new_temp_file T w)" "new_entry w (Dir []) (new_temp_dir T w)"
    using assms by (simp_all add: tempfile_laws_def)
  then show "new_temp_file T w = (Inl e, w') \<Longrightarrow> same_files w w'"
    "new_temp_dir T w = (Inl e, w') \<Longrightarrow> same_files w w'"
    by (simp_all add: new_entry_def)
qed

lemma drop_tempD:
  assumes "tempfile_laws T" "q \<noteq> []"
  shows "cwd (drop_temp T (p, q) w) = cwd w" "dropped T (p, q) w (drop_temp T (p, q) w)"
    "keeps {s. prefix q s} (tree w) (tree (drop_temp T (p, q) w))"
proof -
  obtain removed w' where "remove_temp T (p, q) w = (removed, w')" by fastforce
  moreover from this have "cwd w' = cwd w \<and> keeps {s. prefix q s} (tree w) (tree w') \<and>
      (removed = Ok () \<longrightarrow> (\<forall>r. lookup (tree w') (q @ r) = None))"
    using assms unfolding tempfile_laws_def by blast
  ultimately show "cwd (drop_temp T (p, q) w) = cwd w" "dropped T (p, q) w (drop_temp T (p, q) w)"
    "keeps {s. prefix q s} (tree w) (tree (drop_temp T (p, q) w))"
    by (simp_all add: drop_temp_def dropped_def)
qed

text \<open>The state in which the tool runs: the whole Containerfile is in a new file, and nothing that
  was there has been changed.\<close>

definition containerfile_ready :: "world \<Rightarrow> string \<Rightarrow> string \<times> string list \<Rightarrow> world \<Rightarrow> bool" where
  "containerfile_ready w cf tmp w' =
     (leads_to w' (fst tmp) (snd tmp) \<and> lookup (tree w) (snd tmp) = None \<and>
      (\<exists>m. lookup (tree w') (snd tmp) = Some (File m cf)) \<and> keeps {} (tree w) (tree w'))"

lemma container_build_steps:
  assumes "tempfile_laws T"
  shows "(\<exists>e w'. (\<forall>runner. container_build T cf tag cli runner ctx w = (Err (BuildIo e), w'))
            \<and> keeps {} (tree w) (tree w') \<and> cwd w' = cwd w) \<or>
    (\<exists>tmp w1. containerfile_ready w cf tmp w1 \<and> snd tmp \<noteq> [] \<and> cwd w1 = cwd w \<and>
       (\<forall>runner. container_build T cf tag cli runner ctx w =
          (case runner (build_command cli (fst tmp) tag ctx) w1 of
             (r, w2) \<Rightarrow> (build_outcome r, drop_temp T tmp w2))))"
proof -
  obtain r1 w1 where 1: "new_temp_file T w = (r1, w1)" by fastforce
  show ?thesis
  proof (cases r1)
    case (Inl e)
    with 1 new_temp_failed(1) [OF assms] have "same_files w w1" by blast
    then show ?thesis
      using 1 Inl by (intro disjI1 exI [of _ e] exI [of _ w1]) (simp add: container_build_def same_files_def)
  next
    case (Inr tmp)
    obtain p q where tmp: "tmp = (p, q)" by fastforce
    note new = new_temp_fileD [OF assms 1 [unfolded Inr tmp]]
    obtain r2 w2 where 2: "write_all q cf w1 = (r2, w2)" by fastforce
    note written = write_all_cases [OF 2 new(4) new(1)]
    have kept: "keeps {} (tree w) (tree w2)"
    proof (rule keeps_temporary [OF new(6,3)])
      show "keeps {s. prefix q s} (tree w1) (tree w2)"
        using written keeps_mono [of "{q}" "tree w1" "tree w2" "{s. prefix q s}"] by auto
    qed
    show ?thesis
    proof (cases r2)
      case (Inl e)
      have "keeps {} (tree w) (tree (drop_temp T tmp w2))" "cwd (drop_temp T tmp w2) = cwd w"
        using keeps_temporary [OF kept new(3)] drop_tempD(1,3) [OF assms new(1)] written new(7)
        by (simp_all add: tmp)
      then show ?thesis
        using 1 2 \<open>r1 = Inr tmp\<close> Inl tmp
        by (intro disjI1 exI [of _ e] exI [of _ "drop_temp T tmp w2"]) (simp add: container_build_def)
    next
      case (Inr u)
      have "extends (tree w1) (tree w2)"
        using written new(4) by (intro keeps_at_file [of q]) auto
      then have "leads_to w2 p q" using leads_to_extends new(5) written by blast
      then have "containerfile_ready w cf tmp w2"
        using written new(3) kept Inr by (auto simp: containerfile_ready_def tmp)
      then show ?thesis
        using 1 2 \<open>r1 = Inr tmp\<close> Inr written new(1,7)
        by (intro disjI2 exI [of _ tmp] exI [of _ w2]) (simp add: tmp container_build_def)
    qed
  qed
qed

text \<open>C21. \<open>build\<close> runs exactly one command, \<open><cli> build -f <file> -t <tag> <context>\<close>, on a new file that
  holds the whole Containerfile; it succeeds exactly when the command exits with 0, passes
  every other end of it on, and last it removes the file, of which nothing is left unless that
  fails. Where it fails before the command, it has changed no file of the host.\<close>
theorem container_build_runs:
  assumes "tempfile_laws T"
  shows "(\<exists>e w'. (\<forall>runner. container_build T cf tag cli runner ctx w = (Err (BuildIo e), w'))
            \<and> keeps {} (tree w) (tree w')) \<or>
    (\<exists>tmp w1. containerfile_ready w cf tmp w1 \<and>
       (\<forall>runner r w2.
          runner \<lparr>program = binary cli, arguments = [''build'', ''-f'', fst tmp, ''-t'', tag, ctx]\<rparr> w1 = (r, w2) \<longrightarrow>
          fst (container_build T cf tag cli runner ctx w) =
            (case r of Inl e \<Rightarrow> Err (BuildIo e)
             | Inr (Exit_code c) \<Rightarrow> if c = 0 then Ok () else Err (BuildFailed (Some c))
             | Inr (Killed_by s) \<Rightarrow> Err (BuildFailed None)) \<and>
          dropped T tmp w2 (snd (container_build T cf tag cli runner ctx w)) \<and>
          keeps {s. prefix (snd tmp) s} (tree w2) (tree (snd (container_build T cf tag cli runner ctx w)))))"
  using container_build_steps [OF assms, of cf tag cli ctx w]
proof (elim disjE exE conjE)
  fix tmp w1
  assume "containerfile_ready w cf tmp w1" "snd tmp \<noteq> []"
    and run: "\<forall>runner. container_build T cf tag cli runner ctx w =
      (case runner (build_command cli (fst tmp) tag ctx) w1 of (r, w2) \<Rightarrow> (build_outcome r, drop_temp T tmp w2))"
  moreover have "dropped T tmp w2 (drop_temp T tmp w2)"
    "keeps {s. prefix (snd tmp) s} (tree w2) (tree (drop_temp T tmp w2))" for w2
    using drop_tempD(2,3) [OF assms] \<open>snd tmp \<noteq> []\<close> by (cases tmp; simp)+
  ultimately show ?thesis
    by (intro disjI2 exI [of _ tmp] exI [of _ w1])
      (auto simp: build_command_def build_outcome_def success_def status_code_def
        split: sum.split exit_status.split)
qed blast

subsection \<open>An instance of the laws\<close>

text \<open>Temporaries named \<open>/tmp/f\<close> and \<open>/tmp/d\<close>, refused where the name is taken.\<close>

definition sample_entry :: "string \<Rightarrow> node \<Rightarrow> (world, io_error, temporary) action" where
  "sample_entry name n w =
     (if dir_at (tree w) [''tmp''] \<and> lookup (tree w) [''tmp'', name] = None then
        (Ok (join ''/tmp'' name, [''tmp'', name]), w\<lparr>tree := insert_at [''tmp'', name] n (tree w)\<rparr>)
      else (Err already_exists, w))"

definition sample_tempfiles :: tempfiles where
  "sample_tempfiles =
     \<lparr>new_temp_file = sample_entry ''f'' (File 0x180 []), new_temp_dir = sample_entry ''d'' (Dir []),
      remove_temp = (\<lambda>(p, q) w. (Ok (), w\<lparr>tree := remove_at q (tree w)\<rparr>))\<rparr>"

lemma sample_new_entry:
  assumes "plain_name name" "\<not> is_symlink_node n"
  shows "new_entry w n (sample_entry name n w)"
proof (cases "dir_at (tree w) [''tmp''] \<and> lookup (tree w) [''tmp'', name] = None")
  case True
  let ?q = "[''tmp'', name]"
  let ?w = "w\<lparr>tree := insert_at ?q n (tree w)\<rparr>"
  have dir: "dir_at (tree ?w) [''tmp'']" using True by (simp add: insert_at_above)
  then obtain es where es: "lookup (tree ?w) [''tmp''] = Some (Dir es)" by (auto simp: dir_at_lookup)
  have root: "dir_at (tree ?w) []" using dir_at_prefix [of "tree ?w" "[]" "[''tmp'']"] dir by simp
  have "components ''/tmp'' = [RootDir, Normal ''tmp'']" by code_simp
  then have "leads_to ?w ''/tmp'' [''tmp'']" using root es by (simp add: leads_to_def)
  moreover have new: "lookup (tree ?w) ?q = Some n"
    using True insert_at_same [of ?q "tree w" n] by simp
  ultimately have "leads_to ?w (join ''/tmp'' name) ?q"
    using leads_to_entry [of ?w "''/tmp''" "[''tmp'']" name n] dir assms by simp
  moreover have "keeps {} (tree w) (tree ?w)" using True by (simp add: keeps_insert_new)
  ultimately show ?thesis
    using True new by (simp add: sample_entry_def new_entry_def)
qed (auto simp: sample_entry_def new_entry_def)

lemma sample_tempfiles_laws: "tempfile_laws sample_tempfiles"
proof -
  have "plain_name ''f''" "plain_name ''d''" by (simp_all add: plain_name_def is_sep_def)
  then show ?thesis
    by (auto simp: tempfile_laws_def sample_tempfiles_def sample_new_entry remove_at_same keeps_remove_at)
qed

definition tmp_world :: world where
  "tmp_world = \<lparr>tree = Dir [(''tmp'', Dir []), (''context'', Dir [])], cwd = [], faults = []\<rparr>"

text \<open>A runner that always ends with the given status.\<close>

definition fake_runner :: "exit_status \<Rightarrow> runner" where
  "fake_runner status cmd w = (Ok status, w)"

lemma container_build_runs_witness:
  "\<exists>tmp w1. containerfile_ready tmp_world ''FROM x'' tmp w1 \<and>
     fst (container_build sample_tempfiles ''FROM x'' ''t'' Docker (fake_runner (Exit_code 7)) ''/context'' tmp_world)
       = Err (BuildFailed (Some 7))"
proof -
  have "fst (container_build sample_tempfiles ''FROM x'' ''t'' Docker (fake_runner (Exit_code 0)) ''/context'' tmp_world)
    = Ok ()" by code_simp
  then have "\<not> (\<exists>e w'. \<forall>runner. container_build sample_tempfiles ''FROM x'' ''t'' Docker runner ''/context'' tmp_world
    = (Err (BuildIo e), w'))" by (metis fst_conv sum.distinct(1))
  with container_build_runs [OF sample_tempfiles_laws, of "''FROM x''" "''t''" Docker "''/context''" tmp_world]
  obtain tmp w1 where "containerfile_ready tmp_world ''FROM x'' tmp w1"
    and run: "\<forall>runner r w2. runner \<lparr>program = binary Docker, arguments = [''build'', ''-f'', fst tmp, ''-t'', ''t'', ''/context'']\<rparr> w1 = (r, w2)
      \<longrightarrow> fst (container_build sample_tempfiles ''FROM x'' ''t'' Docker runner ''/context'' tmp_world) =
            (case r of Inl e \<Rightarrow> Err (BuildIo e)
             | Inr (Exit_code c) \<Rightarrow> if c = 0 then Ok () else Err (BuildFailed (Some c))
             | Inr (Killed_by s) \<Rightarrow> Err (BuildFailed None))"
    by (elim disjE) blast+
  then show ?thesis
    using run [rule_format, of "fake_runner (Exit_code 7)" "Ok (Exit_code 7)" w1]
    by (intro exI [of _ tmp] exI [of _ w1]) (simp add: fake_runner_def)
qed

end
