(* ===== verification/Direct.thy ===== *)
theory Direct
  imports FileSystem
begin

text \<open>
  Paths without links on the way. \<open>reaches p q\<close> says that the absolute path \<open>p\<close> is spelled by
  the names of \<open>q\<close>; where what exists of \<open>q\<close> is directories (\<open>direct\<close>), an operation on an
  entry of it acts on that entry and on nothing beside it (\<open>below_only\<close>), whatever faults come.
\<close>

definition reaches :: "string \<Rightarrow> string list \<Rightarrow> bool" where
  "reaches p q = (components p = RootDir # map Normal q)"

definition direct :: "node \<Rightarrow> string list \<Rightarrow> bool" where
  "direct r q = list_all (\<lambda>s. case lookup r s of None \<Rightarrow> True | Some n \<Rightarrow> is_dir_node n) (prefixes q)"

definition no_link :: "node \<Rightarrow> string list \<Rightarrow> bool" where
  "no_link r q = (case lookup r q of None \<Rightarrow> True | Some n \<Rightarrow> \<not> is_symlink_node n)"

text \<open>Nothing beside \<open>q\<close> differs and every directory above it is still one.\<close>

definition below_only :: "string list \<Rightarrow> node \<Rightarrow> node \<Rightarrow> bool" where
  "below_only q r r' =
     ((\<forall>s. \<not> prefix q s \<longrightarrow> \<not> prefix s q \<longrightarrow> lookup r' s = lookup r s) \<and>
      (\<forall>s. strict_prefix s q \<longrightarrow> dir_at r s \<longrightarrow> dir_at r' s))"

subsection \<open>Changes below an entry\<close>

lemma below_only_refl [simp]: "below_only q r r"
  by (simp add: below_only_def)

lemma below_only_trans: "below_only q r r' \<Longrightarrow> below_only q r' r'' \<Longrightarrow> below_only q r r''"
  by (simp add: below_only_def)

lemma below_only_up:
  assumes "below_only (q @ s) r r'"
  shows "below_only q r r'"
proof -
  have "lookup r' t = lookup r t" if "\<not> prefix q t" "\<not> prefix t q" for t
  proof -
    have "\<not> prefix (q @ s) t" "\<not> prefix t (q @ s)"
      using that by (auto simp: prefix_append elim: prefixE)
    with assms show ?thesis by (simp add: below_only_def)
  qed
  moreover have "strict_prefix t q \<Longrightarrow> strict_prefix t (q @ s)" for t
    by (auto simp: strict_prefix_def)
  ultimately show ?thesis using assms by (simp add: below_only_def)
qed

lemma below_only_beside:
  "below_only (q @ [n]) r r' \<Longrightarrow> m \<noteq> n \<Longrightarrow> lookup r' (q @ m # s) = lookup r (q @ m # s)"
  by (simp add: below_only_def)

lemma below_only_dir: "below_only (q @ [n]) r r' \<Longrightarrow> dir_at r q \<Longrightarrow> dir_at r' q"
  by (simp add: below_only_def strict_prefix_def)

lemma below_only_insert_at: "p \<noteq> [] \<Longrightarrow> below_only p r (insert_at p n r)"
  by (auto simp: below_only_def strict_prefix_def insert_at_parallel insert_at_above)

lemma below_only_remove_at: "p \<noteq> [] \<Longrightarrow> below_only p r (remove_at p r)"
  by (auto simp: below_only_def strict_prefix_def remove_at_parallel remove_at_above)

lemma keeps_below_only_dir: "keeps {} r r' \<Longrightarrow> dir_at r q \<Longrightarrow> dir_at r' q"
  using extends_dir_at keeps_extends by blast

subsection \<open>Following a direct path\<close>

lemma direct_dir_at: "dir_at r q \<Longrightarrow> direct r q"
proof -
  assume dir: "dir_at r q"
  have "case lookup r s of None \<Rightarrow> True | Some n \<Rightarrow> is_dir_node n" if "prefix s q" for s
  proof -
    from that obtain t where "q = s @ t" by (rule prefixE)
    with dir have "dir_at r s" using dir_at_prefix by blast
    then show ?thesis by (auto simp: dir_at_lookup)
  qed
  then show "direct r q" by (simp add: direct_def list_all_iff)
qed

lemma direct_prefix: "direct r q \<Longrightarrow> prefix s q \<Longrightarrow> direct r s"
  unfolding direct_def list_all_iff by (metis in_set_prefixes prefix_order.trans)

lemma direct_lookup: "direct r q \<Longrightarrow> lookup r q = Some n \<Longrightarrow> is_dir_node n"
  by (auto simp: direct_def list_all_iff dest!: bspec [of _ _ q])

lemma reaches_nonempty: "reaches p q \<Longrightarrow> p \<noteq> []"
  by (auto simp: reaches_def components_def path_prefix_def has_root_def path_body_def
      seg_component_def ignorable_def)

lemma reaches_join: "reaches p q \<Longrightarrow> plain_name n \<Longrightarrow> reaches (join p n) (q @ [n])"
  by (simp add: reaches_def components_join_entry)

lemma walk_direct:
  assumes "dir_at r (cur @ q)"
  shows "walk r f cur (map Normal q @ cs) = walk r f (cur @ q) cs"
  using assms
proof (induction q arbitrary: cur)
  case (Cons n q)
  have "dir_at r cur" "dir_at r (cur @ [n])"
    using dir_at_prefix [of r cur "n # q"] dir_at_prefix [of r "cur @ [n]" q] Cons.prems by simp_all
  then obtain es where "lookup r (cur @ [n]) = Some (Dir es)" by (auto simp: dir_at_lookup)
  with Cons.IH [of "cur @ [n]"] Cons.prems \<open>dir_at r cur\<close> show ?case by simp
qed simp

lemma walk_direct_Ok:
  assumes "direct r (cur @ q)" "walk r f cur (map Normal q) = Ok (f', d)"
  shows "d = cur @ q"
  using assms
proof (induction q arbitrary: cur)
  case (Cons n q)
  from Cons.prems(2) obtain m where m: "lookup r (cur @ [n]) = Some m"
    by (auto split: if_splits option.splits)
  have "direct r (cur @ [n])"
    using direct_prefix [OF Cons.prems(1), of "cur @ [n]"] by simp
  then have "is_dir_node m" using m by (rule direct_lookup)
  with m Cons.prems have "walk r f (cur @ [n]) (map Normal q) = Ok (f', d)"
    by (cases m) (auto split: if_splits)
  with Cons.IH [of "cur @ [n]"] Cons.prems(1) show ?case by simp
qed simp

lemma leads_to_direct: "reaches p q \<Longrightarrow> dir_at (tree w) q \<Longrightarrow> leads_to w p q"
  using walk_direct [of "tree w" "[]" q SYMLOOP_MAX "[]"] by (simp add: leads_to_def reaches_def)

lemma resolve_parent_direct:
  assumes "reaches p (q @ [n])" "direct (tree w) q"
  shows "resolve_parent w p = Ok (d, m) \<longleftrightarrow> dir_at (tree w) q \<and> d = q \<and> m = n"
proof -
  have c: "rev (components p) = Normal n # rev (RootDir # map Normal q)"
    using assms(1) by (simp add: reaches_def)
  have "resolve_parent w p = (case walk (tree w) SYMLOOP_MAX (cwd w) (RootDir # map Normal q) of
      Inl e \<Rightarrow> Err e
    | Inr (fuel, d) \<Rightarrow> if dir_at (tree w) d then Ok (d, n) else Err not_a_directory)"
    using c reaches_nonempty [OF assms(1)] by (simp add: resolve_parent_in_def del: walk.simps)
  moreover have "dir_at (tree w) q \<Longrightarrow>
      walk (tree w) SYMLOOP_MAX (cwd w) (RootDir # map Normal q) = Ok (SYMLOOP_MAX, q)"
    using walk_direct [of "tree w" "[]" q SYMLOOP_MAX "[]"] by simp
  moreover have "walk (tree w) SYMLOOP_MAX (cwd w) (RootDir # map Normal q) = Ok (f, x) \<Longrightarrow> x = q" for f x
    using walk_direct_Ok [of "tree w" "[]" q SYMLOOP_MAX f x] assms(2) by simp
  ultimately show ?thesis
    by (auto simp del: walk.simps split: sum.splits prod.splits if_splits)
qed

lemma stat_direct:
  assumes "reaches p (q @ [n])" "dir_at (tree w) q" "no_link (tree w) (q @ [n])"
  shows "stat w p = ok_or not_found (lookup (tree w) (q @ [n]))"
proof -
  have "walk (tree w) SYMLOOP_MAX (cwd w) (components p) = walk (tree w) SYMLOOP_MAX q [Normal n]"
    using walk_direct [of "tree w" "[]" q SYMLOOP_MAX "[Normal n]"] assms(1,2)
    by (simp add: reaches_def)
  with assms(2,3) reaches_nonempty [OF assms(1)] show ?thesis
    by (auto simp: stat_in_def resolve_in_def no_link_def split: option.splits node.splits)
qed

lemma stat_direct_missing:
  assumes "reaches p (q @ [n])" "direct (tree w) q" "\<not> dir_at (tree w) q"
  shows "\<exists>e. stat w p = Err e"
proof -
  have "\<nexists>f d. walk (tree w) SYMLOOP_MAX (cwd w) (components p) = Ok (f, d)"
  proof
    assume "\<exists>f d. walk (tree w) SYMLOOP_MAX (cwd w) (components p) = Ok (f, d)"
    then obtain f d where
      "walk (tree w) SYMLOOP_MAX [] (map Normal q @ [Normal n]) = Ok (f, d)"
      using assms(1) by (auto simp: reaches_def)
    then obtain f' d' where "walk (tree w) SYMLOOP_MAX [] (map Normal q) = Ok (f', d')"
      "walk (tree w) f' d' [Normal n] = Ok (f, d)"
      by (auto simp: walk_append split: sum.splits prod.splits)
    with walk_direct_Ok [of "tree w" "[]" q SYMLOOP_MAX f' d'] assms(2,3) show False by simp
  qed
  then show ?thesis
    by (cases "walk (tree w) SYMLOOP_MAX (cwd w) (components p)")
      (auto simp: stat_in_def resolve_in_def)
qed

subsection \<open>Operations on an entry\<close>

text \<open>Nothing happened, or something did at the entry \<open>n\<close> of the directory \<open>q\<close> only.\<close>

definition touched :: "string list \<Rightarrow> string \<Rightarrow> world \<Rightarrow> world \<Rightarrow> bool" where
  "touched q n w w' =
     (cwd w' = cwd w \<and>
      (tree w' = tree w \<or>
       dir_at (tree w) q \<and> dir_at (tree w') q \<and> below_only (q @ [n]) (tree w) (tree w')))"

lemma touched_same: "same_files w w' \<Longrightarrow> touched q n w w'"
  by (simp add: touched_def same_files_def)

lemma touched_insert_at:
  assumes "tree w' = insert_at (q @ [n]) m (tree w)" "cwd w' = cwd w" "dir_at (tree w) q"
  shows "touched q n w w'"
  using assms below_only_insert_at [of "q @ [n]" "tree w" m] below_only_dir [of q n "tree w" "tree w'"]
  by (simp add: touched_def)

lemma touched_remove_at:
  assumes "tree w' = remove_at (q @ [n]) (tree w)" "cwd w' = cwd w" "dir_at (tree w) q"
  shows "touched q n w w'"
  using assms below_only_remove_at [of "q @ [n]" "tree w"] below_only_dir [of q n "tree w" "tree w'"]
  by (simp add: touched_def)

lemma touched_direct: "touched q n w w' \<Longrightarrow> direct (tree w) q \<Longrightarrow> direct (tree w') q"
  by (auto simp: touched_def direct_dir_at)

lemma touched_dir: "touched q n w w' \<Longrightarrow> dir_at (tree w) q \<Longrightarrow> dir_at (tree w') q"
  by (auto simp: touched_def)

lemma touched_beside:
  "touched q n w w' \<Longrightarrow> m \<noteq> n \<Longrightarrow> lookup (tree w') (q @ m # s) = lookup (tree w) (q @ m # s)"
  by (auto simp: touched_def dest: below_only_beside)

lemma touched_below: "touched q n w w' \<Longrightarrow> below_only q (tree w) (tree w')"
  by (auto simp: touched_def intro: below_only_up)

lemma remove_dir_all_direct:
  assumes "remove_dir_all p w = (res, w')" "reaches p (q @ [n])" "direct (tree w) q"
  shows "touched q n w w'" "res = Ok () \<Longrightarrow> lookup (tree w') (q @ [n]) = None"
proof -
  obtain f w1 where f: "next_fault w = (f, w1)" by fastforce
  then have w1: "tree w1 = tree w" "cwd w1 = cwd w" by (simp_all add: next_faultD)
  then have same: "same_files w w1" by (simp add: same_files_def)
  have "touched q n w w' \<and> (res = Ok () \<longrightarrow> lookup (tree w') (q @ [n]) = None)"
  proof (cases "dir_at (tree w) q")
    case True
    then have r: "resolve_parent w p = Ok (q, n)" using resolve_parent_direct assms(2,3) by simp
    have gone: "lookup (remove_at (q @ [n]) (tree w)) (q @ [n]) = None"
      using remove_at_same [of "q @ [n]" "tree w" "[]"] by simp
    show ?thesis
    proof (cases "lookup (tree w) (q @ [n])")
      case None
      with assms(1) r f same show ?thesis by (auto simp: remove_dir_all_def intro: touched_same)
    next
      case (Some m)
      with assms(1) r f same w1 gone True show ?thesis
        by (cases m; cases f)
          (auto simp: remove_dir_all_def intro: touched_same touched_insert_at touched_remove_at)
    qed
  next
    case False
    then obtain e where "resolve_parent w p = Err e"
      using resolve_parent_direct [OF assms(2,3)] by (cases "resolve_parent w p") auto
    with assms(1) f same show ?thesis by (auto simp: remove_dir_all_def intro: touched_same)
  qed
  then show "touched q n w w'" "res = Ok () \<Longrightarrow> lookup (tree w') (q @ [n]) = None" by simp_all
qed

lemma remove_dir_all_works:
  assumes "no_faults w" "reaches p (q @ [n])" "dir_at (tree w) q"
    "lookup (tree w) (q @ [n]) = Some m" "\<not> is_file_node m"
  obtains w' where "remove_dir_all p w = (Ok (), w')" "no_faults w'"
proof -
  obtain w1 where "next_fault w = (None, w1)" "no_faults w1"
    using no_faultsD [OF assms(1)] by blast
  moreover have "resolve_parent w p = Ok (q, n)"
    using resolve_parent_direct [OF assms(2) direct_dir_at [OF assms(3)]] assms(3) by simp
  ultimately show thesis
    using assms(4,5) that by (cases m) (auto simp: remove_dir_all_def no_faults_def)
qed

text \<open>\<open>rename\<close> between two names of one directory.\<close>

lemma rename_direct:
  assumes "rename src dst w = (res, w')" "reaches src (q @ [a])" "reaches dst (q @ [b])" "a \<noteq> b"
    "direct (tree w) q"
  shows "(\<exists>e. res = Err e) \<and> same_files w w' \<or>
    res = Ok () \<and> cwd w' = cwd w \<and> dir_at (tree w) q \<and>
    (\<exists>n. lookup (tree w) (q @ [a]) = Some n \<and>
       tree w' = insert_at (q @ [b]) n (remove_at (q @ [a]) (tree w)))"
proof -
  obtain f w1 where f: "next_fault w = (f, w1)" by fastforce
  then have w1: "tree w1 = tree w" "cwd w1 = cwd w" by (simp_all add: next_faultD)
  show ?thesis
  proof (cases "f = None \<and> dir_at (tree w) q")
    case True
    then have "resolve_parent w1 src = Ok (q, a)" "resolve_parent w1 dst = Ok (q, b)"
      using resolve_parent_direct [OF assms(2), of w1] resolve_parent_direct [OF assms(3), of w1]
        assms(5) w1 by simp_all
    note at = this
    show ?thesis
    proof (cases "lookup (tree w) (q @ [a])")
      case None
      with assms(1,4) f w1 True at show ?thesis by (auto simp: rename_def same_files_def)
    next
      case (Some n)
      show ?thesis
      proof (cases "may_replace n (lookup (tree w) (q @ [b]))")
        case (Inl e)
        with assms(1,4) f w1 True at Some have "res = Err e \<and> same_files w w'"
          by (simp add: rename_def same_files_def)
        then show ?thesis by blast
      next
        case (Inr u)
        with assms(1,4) f w1 True at Some show ?thesis by (auto simp: rename_def same_files_def)
      qed
    qed
  next
    case False
    then have "f = None \<Longrightarrow> \<exists>e. resolve_parent w1 src = Err e"
      using resolve_parent_direct [OF assms(2), of w1] assms(5) w1
      by (cases "resolve_parent w1 src") auto
    with assms(1) f w1 show ?thesis
      by (cases f) (auto simp: rename_def same_files_def)
  qed
qed

text \<open>\<open>create_dir_all\<close> makes the missing directories of the path and nothing else.\<close>

definition made_on :: "string list \<Rightarrow> world \<Rightarrow> world \<Rightarrow> bool" where
  "made_on q w w' =
     (cwd w' = cwd w \<and> keeps {} (tree w) (tree w') \<and>
      (\<forall>t. \<not> prefix t q \<longrightarrow> lookup (tree w') t = lookup (tree w) t))"

lemma insert_new_dir:
  assumes "lookup r p = None" "dir_at r (butlast p)" "p \<noteq> []" "\<not> prefix t p"
  shows "lookup (insert_at p (Dir []) r) t = lookup r t"
proof (cases "prefix p t")
  case True
  then obtain u where t: "t = p @ u" by (rule prefixE)
  with assms(4) have "u \<noteq> []" by auto
  then have "lookup (Dir []) u = None" by (cases u) simp_all
  with assms t show ?thesis by (simp add: lookup_insert_at lookup_below_none)
qed (use assms in \<open>simp add: insert_at_parallel\<close>)

lemma mkdir_at_new:
  assumes "mkdir_at p w = (res, w')" "lookup (tree w) p = None" "dir_at (tree w) (butlast p)" "p \<noteq> []"
  shows "made_on p w w'" "res = Ok () \<Longrightarrow> lookup (tree w') p = Some (Dir [])"
proof -
  obtain f w1 where f: "next_fault w = (f, w1)" by fastforce
  then have "tree w1 = tree w" "cwd w1 = cwd w" by (simp_all add: next_faultD)
  with assms f show "made_on p w w'" "res = Ok () \<Longrightarrow> lookup (tree w') p = Some (Dir [])"
    by (auto simp: mkdir_at_def made_on_def insert_new_dir keeps_insert_new insert_at_same
        split: option.splits)
qed

lemma made_on_longer: "made_on p w w' \<Longrightarrow> made_on (p @ s) w w'"
  unfolding made_on_def by (meson prefix_order.trans prefixI)

lemma made_on_trans:
  assumes "made_on p w w'" "made_on (p @ s) w' w''"
  shows "made_on (p @ s) w w''"
  using made_on_longer [OF assms(1), of s] assms(2) by (auto simp: made_on_def intro: keeps_trans)

lemma direct_child_dir:
  assumes "direct r (cur @ n # q)" "lookup r (cur @ [n]) = Some m"
  shows "dir_at r (cur @ [n])"
  using direct_lookup [OF direct_prefix [OF assms(1), of "cur @ [n]"] assms(2)] assms(2)
  by (simp add: dir_at_def)

lemma direct_new_dir:
  assumes "lookup r p = None" "lookup r' p = Some (Dir [])" "\<forall>t. \<not> prefix t p \<longrightarrow> lookup r' t = lookup r t"
  shows "direct r' (p @ q)"
proof -
  have "lookup r' (p @ t) = None" if "t \<noteq> []" for t
    using assms that lookup_below_none [OF assms(1), of t] by simp
  then have below: "case lookup r' (p @ t) of None \<Rightarrow> True | Some n \<Rightarrow> is_dir_node n" for t
    using assms(2) by (cases "t = []") simp_all
  have "dir_at r' p" using assms(2) by (simp add: dir_at_def)
  then have "direct r' p" by (rule direct_dir_at)
  with below show ?thesis
    by (auto simp only: direct_def list_all_iff in_set_prefixes prefix_append)
qed

text \<open>What making the directories down to \<open>p\<close> leaves.\<close>

definition dirs_made :: "string list \<Rightarrow> world \<Rightarrow> (io_error, unit) result \<Rightarrow> world \<Rightarrow> bool" where
  "dirs_made p w res w' =
     (made_on p w w' \<and> direct (tree w') p \<and>
      (res = Ok () \<longrightarrow> dir_at (tree w') p \<and> (lookup (tree w) p = None \<longrightarrow> lookup (tree w') p = Some (Dir []))))"

lemma dirs_made_below_new:
  assumes "dirs_made (p @ q) w1 res w'" "made_on p w w1" "lookup (tree w1) p = Some (Dir [])"
    "q = [] \<Longrightarrow> res = Ok () \<Longrightarrow> w' = w1"
  shows "dirs_made (p @ q) w res w'"
proof -
  have "made_on (p @ q) w w'" using made_on_trans assms(1,2) by (auto simp: dirs_made_def)
  moreover have "q \<noteq> [] \<Longrightarrow> lookup (tree w1) (p @ q) = None"
    using lookup_append [of "tree w1" p q] assms(3) by (cases q) simp_all
  ultimately show ?thesis using assms(1,3,4) by (cases "q = []") (auto simp: dirs_made_def)
qed

lemma make_dirs_direct:
  assumes "make_dirs cur (map Normal q) w = (res, w')" "dir_at (tree w) cur" "direct (tree w) (cur @ q)"
  shows "dirs_made (cur @ q) w res w'"
  using assms
proof (induction q arbitrary: cur w)
  case Nil
  then show ?case by (auto simp: dirs_made_def made_on_def dir_at_lookup)
next
  case (Cons n q)
  show ?case
  proof (cases "lookup (tree w) (cur @ [n])")
    case None
    obtain r1 w1 where w1: "mkdir_at (cur @ [n]) w = (r1, w1)" by fastforce
    have new: "made_on (cur @ [n]) w w1" "r1 = Ok () \<Longrightarrow> lookup (tree w1) (cur @ [n]) = Some (Dir [])"
      using mkdir_at_new [OF w1 None] Cons.prems(2) by simp_all
    show ?thesis
    proof (cases r1)
      case (Inl e)
      then have "res = Inl e" "w' = w1" using Cons.prems(1) None w1 by simp_all
      moreover have "tree w1 = tree w"
        using w1 Inl by (auto simp: mkdir_at_def split: prod.splits option.splits dest: next_faultD)
      ultimately show ?thesis using made_on_longer [OF new(1), of q] Cons.prems(3) by (simp add: dirs_made_def)
    next
      case (Inr u)
      then have made: "lookup (tree w1) (cur @ [n]) = Some (Dir [])" using new(2) by simp
      have run: "make_dirs (cur @ [n]) (map Normal q) w1 = (res, w')" using Cons.prems(1) None w1 Inr by simp
      moreover have "direct (tree w1) ((cur @ [n]) @ q)"
        using direct_new_dir [OF None made] new(1) by (auto simp only: made_on_def)
      ultimately have "dirs_made ((cur @ [n]) @ q) w1 res w'"
        using made by (intro Cons.IH) (simp_all add: dir_at_def)
      moreover have "q = [] \<Longrightarrow> w' = w1" using run by simp
      ultimately have "dirs_made ((cur @ [n]) @ q) w res w'" by (rule dirs_made_below_new [OF _ new(1) made])
      then show ?thesis by simp
    qed
  next
    case (Some m)
    then have d: "dir_at (tree w) (cur @ [n])"
      using direct_child_dir Cons.prems(3) by blast
    with Some obtain es where "m = Dir es" by (auto simp: dir_at_lookup)
    with Cons.prems(1) Some have "make_dirs (cur @ [n]) (map Normal q) w = (res, w')" by simp
    from Cons.IH [OF this d] Cons.prems(3) show ?thesis by simp
  qed
qed

lemma create_dir_all_direct:
  assumes "create_dir_all p w = (res, w')" "reaches p q" "direct (tree w) q"
  shows "made_on q w w'" "direct (tree w') q" "res = Ok () \<Longrightarrow> dir_at (tree w') q"
    "res = Ok () \<Longrightarrow> lookup (tree w) q = None \<Longrightarrow> lookup (tree w') q = Some (Dir [])"
proof -
  have "make_dirs [] (map Normal q) w = (res, w')"
    using assms(1,2) reaches_nonempty [OF assms(2)] by (simp add: create_dir_all_def reaches_def)
  moreover have "dir_at (tree w) []"
    using direct_lookup [OF direct_prefix [OF assms(3), of "[]"]] by (simp add: dir_at_def)
  ultimately show "made_on q w w'" "direct (tree w') q" "res = Ok () \<Longrightarrow> dir_at (tree w') q"
    "res = Ok () \<Longrightarrow> lookup (tree w) q = None \<Longrightarrow> lookup (tree w') q = Some (Dir [])"
    using make_dirs_direct [of "[]" q w res w'] assms(3) by (simp_all add: dirs_made_def)
qed

lemma make_dirs_existing:
  "dir_at (tree w) (cur @ q) \<Longrightarrow> make_dirs cur (map Normal q @ cs) w = make_dirs (cur @ q) cs w"
proof (induction q arbitrary: cur)
  case (Cons n q)
  then obtain es where "lookup (tree w) (cur @ [n]) = Some (Dir es)"
    using dir_at_prefix [of "tree w" "cur @ [n]" q] by (auto simp: dir_at_lookup)
  with Cons.IH [of "cur @ [n]"] Cons.prems show ?case by simp
qed simp

lemma create_dir_all_file:
  assumes "reaches p (q @ [n])" "lookup (tree w) (q @ [n]) = Some (File m c)"
  shows "create_dir_all p w = (Err already_exists, w)"
proof -
  have "dir_at (tree w) q" using assms(2) lookup_no_dir [of "tree w" q n] by auto
  then show ?thesis
    using make_dirs_existing [of w "[]" q "[Normal n]"] assms reaches_nonempty [OF assms(1)]
    by (simp add: create_dir_all_def reaches_def)
qed

lemma direct_snoc:
  "direct r (q @ [n]) \<longleftrightarrow>
     direct r q \<and> (case lookup r (q @ [n]) of None \<Rightarrow> True | Some m \<Rightarrow> is_dir_node m)"
  by (simp add: direct_def)

lemma made_on_below: "made_on (q @ [n]) w w' \<Longrightarrow> below_only q (tree w) (tree w')"
  using keeps_below_only_dir unfolding made_on_def below_only_def
  by (metis prefix_snoc strict_prefixE prefixI)

text \<open>\<open>std::fs::write\<close> to an entry that is no link.\<close>

lemma fs_write_opened:
  assumes "open_at (q @ [n]) w = (Inr q', w2)" "write_all q' data w2 = (res, w')" "dir_at (tree w) q"
  shows "touched q n w w'" "res = Ok () \<Longrightarrow> \<exists>m. lookup (tree w') (q @ [n]) = Some (File m data)"
proof -
  obtain m where m: "q' = q @ [n]" "lookup (tree w2) (q @ [n]) = Some (File m [])"
    using open_at_cases [OF assms(1)] assms(3) by auto
  have wr: "write_all (q @ [n]) data w2 = (res, w')" using assms(2) m(1) by simp
  have t: "touched q n w w2"
    using assms(1,3) by (auto simp: open_at_def intro: touched_same touched_insert_at split: option.splits node.splits)
  have d: "dir_at (tree w2) q" using touched_dir [OF t assms(3)] .
  then have "touched q n w2 w'"
    using wr m(2) by (auto simp: write_all_def intro!: touched_insert_at dest!: next_faultD
        split: prod.splits option.splits)
  with t d assms(3) show "touched q n w w'" by (auto simp: touched_def intro: below_only_trans)
  show "res = Ok () \<Longrightarrow> \<exists>m. lookup (tree w') (q @ [n]) = Some (File m data)"
    using write_all_cases [OF wr m(2)] by auto
qed

lemma fs_write_direct:
  assumes "fs_write p data w = (res, w')" "reaches p (q @ [n])" "direct (tree w) q"
    "no_link (tree w) (q @ [n])"
  shows "touched q n w w'" "res = Ok () \<Longrightarrow> \<exists>m. lookup (tree w') (q @ [n]) = Some (File m data)"
proof -
  obtain f w1 where f: "next_fault w = (f, w1)" by fastforce
  then have w1: "tree w1 = tree w" "cwd w1 = cwd w" by (simp_all add: next_faultD)
  then have same: "same_files w w1" by (simp add: same_files_def)
  have "touched q n w w' \<and> (res = Ok () \<longrightarrow> (\<exists>m. lookup (tree w') (q @ [n]) = Some (File m data)))"
  proof (cases "f = None \<and> dir_at (tree w) q")
    case True
    then have at: "resolve_parent w1 p = Ok (q, n)"
      using resolve_parent_direct [OF assms(2), of w1] assms(3) w1 by simp
    obtain r2 w2 where o: "open_at (q @ [n]) w1 = (r2, w2)" by fastforce
    then have op: "open_truncate False p w = (r2, w2)"
      using True f at w1 assms(4)
      by (auto simp: open_truncate_def no_link_def split: option.split node.split)
    show ?thesis
    proof (cases r2)
      case (Inl e)
      then have "w2 = w1" using open_at_cases [OF o] True w1 by auto
      with Inl assms(1) op same show ?thesis by (auto simp: fs_write_def intro: touched_same)
    next
      case (Inr q')
      then have "write_all q' data w2 = (res, w')" using assms(1) op by (simp add: fs_write_def)
      from fs_write_opened [OF o [unfolded Inr] this] True w1 show ?thesis by (auto simp: touched_def)
    qed
  next
    case False
    then have "f = None \<Longrightarrow> \<exists>e. resolve_parent w1 p = Err e"
      using resolve_parent_direct [OF assms(2), of w1] assms(3) w1
      by (cases "resolve_parent w1 p") auto
    with assms(1) f same show ?thesis
      by (cases f) (auto simp: fs_write_def open_truncate_def intro: touched_same)
  qed
  then show "touched q n w w'" "res = Ok () \<Longrightarrow> \<exists>m. lookup (tree w') (q @ [n]) = Some (File m data)"
    by simp_all
qed

subsection \<open>Effects\<close>

text \<open>
  The interface between the operations and the code that strings them together: an effect is a
  relation of the worlds before and after that composes, that reading satisfies, and that leaves
  a world the next operation can start from. Whatever a sequence, a branch or a loop of such
  operations does is then an effect of the same kind.
\<close>

locale effect =
  fixes sound :: "world \<Rightarrow> bool"
    and R :: "world \<Rightarrow> world \<Rightarrow> bool"
  assumes same: "same_files w w' \<Longrightarrow> sound w \<Longrightarrow> R w w'"
    and trans: "R w w' \<Longrightarrow> R w' w'' \<Longrightarrow> R w w''"
    and sound_after: "R w w' \<Longrightarrow> sound w'"
begin

lemma refl: "sound w \<Longrightarrow> R w w"
  by (simp add: same)

lemma step: "R w w1 \<Longrightarrow> (sound w1 \<Longrightarrow> R w1 w2) \<Longrightarrow> R w w2"
  using sound_after trans by blast

lemma then_same: "R w w1 \<Longrightarrow> same_files w1 w2 \<Longrightarrow> R w w2"
  using same step by blast

end

subsection \<open>Work at one entry\<close>

text \<open>What a series of operations on the entry \<open>n\<close> of \<open>q\<close> leaves of the rest.\<close>

definition worked :: "string list \<Rightarrow> string \<Rightarrow> world \<Rightarrow> world \<Rightarrow> bool" where
  "worked q n w w' =
     (cwd w' = cwd w \<and> direct (tree w') q \<and> below_only q (tree w) (tree w') \<and>
      (\<forall>m s. m \<noteq> n \<longrightarrow> lookup (tree w') (q @ m # s) = lookup (tree w) (q @ m # s)))"

text \<open>What operations on any entries of \<open>q\<close> leave.\<close>

definition inside :: "string list \<Rightarrow> world \<Rightarrow> world \<Rightarrow> bool" where
  "inside q w w' = (cwd w' = cwd w \<and> direct (tree w') q \<and> below_only q (tree w) (tree w'))"

interpretation inside: effect "\<lambda>w. direct (tree w) q" "inside q" for q
  by unfold_locales (auto simp: inside_def same_files_def intro: below_only_trans)

interpretation worked: effect "\<lambda>w. direct (tree w) q" "worked q n" for q n
  by unfold_locales (auto simp: worked_def same_files_def intro: below_only_trans)

lemma worked_inside: "worked q n w w' \<Longrightarrow> inside q w w'"
  by (simp add: worked_def inside_def)

lemma worked_beside:
  "worked q n w w' \<Longrightarrow> m \<noteq> n \<Longrightarrow> lookup (tree w') (q @ m # s) = lookup (tree w) (q @ m # s)"
  by (simp add: worked_def)

lemma touched_worked: "touched q n w w' \<Longrightarrow> direct (tree w) q \<Longrightarrow> worked q n w w'"
  using touched_direct [of q n w w'] touched_below [of q n w w'] touched_beside [of q n w w']
  unfolding worked_def by (simp add: touched_def)

lemma made_on_worked:
  assumes "made_on (q @ [n]) w w'" "direct (tree w') q"
  shows "worked q n w w'"
  using assms made_on_below [OF assms(1)] by (auto simp: worked_def made_on_def)

subsection \<open>Worlds without faults\<close>

lemma no_faults_tree [simp]: "no_faults (w\<lparr>tree := r\<rparr>) = no_faults w"
  by (simp add: no_faults_def)

lemma no_faults_next: "next_fault w = (f, w1) \<Longrightarrow> no_faults w \<Longrightarrow> f = None \<and> no_faults w1"
  by (auto simp: next_fault_def no_faults_def split: list.splits)

lemma no_faults_snd: "no_faults w \<Longrightarrow> no_faults (snd (next_fault w))"
  by (cases "next_fault w") (auto dest: no_faults_next)

lemma no_faults_metadata: "metadata p w = (r, w1) \<Longrightarrow> no_faults w \<Longrightarrow> no_faults w1"
  by (auto simp: metadata_def split: prod.splits option.splits dest: no_faults_next)

lemma no_faults_queries:
  "path_is_dir p w = (b, w1) \<Longrightarrow> no_faults w \<Longrightarrow> no_faults w1"
  "path_is_file p w = (b, w1) \<Longrightarrow> no_faults w \<Longrightarrow> no_faults w1"
  "path_exists p w = (b, w1) \<Longrightarrow> no_faults w \<Longrightarrow> no_faults w1"
  by (auto simp: path_is_dir_def path_is_file_def path_exists_def split: prod.splits sum.splits
      dest: no_faults_metadata)

lemma no_faults_read_to_string: "read_to_string p w = (r, w1) \<Longrightarrow> no_faults w \<Longrightarrow> no_faults w1"
  by (auto simp: read_to_string_def split: prod.splits option.splits sum.splits node.splits
      dest: no_faults_next)

lemma no_faults_remove_dir_all: "remove_dir_all p w = (r, w1) \<Longrightarrow> no_faults w \<Longrightarrow> no_faults w1"
  by (auto simp: remove_dir_all_def split: prod.splits option.splits sum.splits node.splits
      dest: no_faults_next no_faults_snd)

lemma no_faults_mkdir_at: "mkdir_at q w = (r, w1) \<Longrightarrow> no_faults w \<Longrightarrow> no_faults w1"
  by (auto simp: mkdir_at_def split: prod.splits option.splits dest: no_faults_next)

lemma no_faults_make_dirs: "make_dirs cur (map Normal q) w = (r, w1) \<Longrightarrow> no_faults w \<Longrightarrow> no_faults w1"
proof (induction q arbitrary: cur w)
  case (Cons n q)
  show ?case
  proof (cases "lookup (tree w) (cur @ [n])")
    case None
    obtain r2 w2 where "mkdir_at (cur @ [n]) w = (r2, w2)" by fastforce
    with Cons None no_faults_mkdir_at [OF this] show ?thesis by (cases r2) auto
  next
    case (Some m)
    show ?thesis
    proof (cases m)
      case (Symlink t)
      show ?thesis
      proof (cases "\<exists>fuel q'. walk (tree w) SYMLOOP_MAX cur [Normal n] = Ok (fuel, q') \<and> dir_at (tree w) q'")
        case True
        with Cons Some Symlink show ?thesis by (auto simp del: walk.simps)
      next
        case False
        with Cons Some Symlink show ?thesis
          by (simp del: walk.simps split: sum.splits prod.splits)
      qed
    qed (use Cons Some in auto)
  qed
qed simp

lemma no_faults_create_dir_all:
  "create_dir_all p w = (r, w1) \<Longrightarrow> reaches p q \<Longrightarrow> no_faults w \<Longrightarrow> no_faults w1"
  using no_faults_make_dirs [of "[]" q w r w1] reaches_nonempty [of p q]
  by (simp add: create_dir_all_def reaches_def)

lemma no_faults_fs_write:
  assumes "fs_write p data w = (r, w1)" "no_faults w"
  shows "no_faults w1"
proof -
  have o: "no_faults w2" if "open_truncate False p w = (r2, w2)" for r2 w2
    using that assms(2) by (auto simp: open_truncate_def open_at_def
        split: prod.splits option.splits sum.splits node.splits dest: no_faults_next)
  have "no_faults w3" if "write_all q data w2 = (r3, w3)" "no_faults w2" for q w2 r3 w3
    using that by (auto simp: write_all_def split: prod.splits option.splits node.splits
        dest: no_faults_next)
  with assms(1) o show ?thesis
    by (auto simp: fs_write_def split: prod.splits sum.splits)
qed

text \<open>Without faults a rename of a directory onto a free name works.\<close>

lemma rename_works:
  assumes "no_faults w" "reaches src (q @ [a])" "reaches dst (q @ [b])" "a \<noteq> b" "dir_at (tree w) q"
    "lookup (tree w) (q @ [a]) = Some n" "lookup (tree w) (q @ [b]) = None"
  shows "fst (rename src dst w) = Ok ()"
proof -
  obtain w1 where "next_fault w = (None, w1)" "tree w1 = tree w" "cwd w1 = cwd w"
    using no_faultsD [OF assms(1)] by blast
  moreover have "resolve_parent w src = Ok (q, a)" "resolve_parent w dst = Ok (q, b)"
    using resolve_parent_direct direct_dir_at [OF assms(5)] assms(2,3,5) by blast+
  ultimately show ?thesis using assms(4,6,7) by (simp add: rename_def may_replace_def)
qed

lemma path_exists_direct:
  assumes "no_faults w" "reaches p (q @ [n])" "direct (tree w) q" "no_link (tree w) (q @ [n])"
  obtains w1 where "path_exists p w = (lookup (tree w) (q @ [n]) \<noteq> None, w1)" "no_faults w1" "same_files w w1"
proof -
  obtain w1 where w1: "metadata p w = (stat w p, w1)" "no_faults w1" "same_files w w1"
    using metadata_no_faults [OF assms(1)] .
  have "(\<exists>m. stat w p = Ok m) \<longleftrightarrow> lookup (tree w) (q @ [n]) \<noteq> None"
  proof (cases "dir_at (tree w) q")
    case True
    then show ?thesis
      using stat_direct [OF assms(2) True assms(4)] by (cases "lookup (tree w) (q @ [n])") simp_all
  next
    case False
    then show ?thesis
      using stat_direct_missing [OF assms(2,3)] lookup_no_dir by auto
  qed
  with w1 show thesis
    by (intro that [of w1]) (cases "stat w p"; simp add: path_exists_def)+
qed

end
