(* ===== verification/VmRootfs.thy ===== *)
theory VmRootfs
  imports VmImageBuilder Direct
begin

text \<open>
  \<open>src/vm_rootfs.rs\<close>: the embedded rootfs and its extraction on first use. What \<open>build.rs\<close>
  embedded (the archive and its digest), the data directory and the process id are arguments.
  The decoder of the \<open>zstd\<close> crate and the unpacking of the \<open>tar\<close> crate are the record
  \<open>unpackers\<close>: an unpacking may have done any part of its work when it fails.
\<close>

record unpackers =
  zstd_decoder :: "string \<Rightarrow> (io_error, unit) result"
  tar_unpack :: "string \<Rightarrow> string \<Rightarrow> (world, io_error, unit) action"

definition VERSION :: string where
  "VERSION = ''0.13.0-next''"

definition MARKER :: string where
  "MARKER = ''.rootfs-archive''"

definition STAGING_PREFIX :: string where
  "STAGING_PREFIX = ''.staging-''"

definition NOT_EMBEDDED :: string where
  "NOT_EMBEDDED = ''no VM rootfs is embedded in this build '' @ em_dash @
     '' point --vm-rootfs at one, or use a release build, which carries its own''"

definition cache_root :: "string option \<Rightarrow> (string, string) result" where
  "cache_root data_dir =
     ok_or ''cannot locate a data directory to unpack the VM rootfs into''
       (map_option (\<lambda>dir. join (join dir ''openshell-build-image'') ''vm-rootfs'') data_dir)"

definition cache_key :: "string \<Rightarrow> string" where
  "cache_key digest = VERSION @ ''-'' @ trim digest"

definition marker_matches :: "string \<Rightarrow> string \<Rightarrow> world \<Rightarrow> bool \<times> world" where
  "marker_matches dir key w =
     (case read_to_string (join dir MARKER) w of
        (Inl e, w1) \<Rightarrow> (False, w1)
      | (Inr found, w1) \<Rightarrow> (trim found = key, w1))"

text \<open>The test at both ends of \<open>install\<close>: the marker first, and the rootfs only if it matches.\<close>

definition already_installed :: "host_dns \<Rightarrow> string \<Rightarrow> string \<Rightarrow> world \<Rightarrow> bool \<times> world" where
  "already_installed h dir key w =
     (case marker_matches dir key w of
        (False, w1) \<Rightarrow> (False, w1)
      | (True, w1) \<Rightarrow>
          (case check_rootfs (vm_config_new h dir) w1 of
             (Inl e, w2) \<Rightarrow> (False, w2)
           | (Inr _, w2) \<Rightarrow> (True, w2)))"

definition failure :: "string \<Rightarrow> string \<Rightarrow> io_error \<Rightarrow> string" where
  "failure what path e = what @ '' '' @ to_string_lossy path @ '': '' @ io_display e"

definition stage :: "unpackers \<Rightarrow> string \<Rightarrow> string \<Rightarrow> string \<Rightarrow> (world, string, unit) action" where
  "stage U archive key staging w =
     (case path_exists staging w of
        (there, w1) \<Rightarrow>
     (case (if there then remove_dir_all staging w1 else (Ok (), w1)) of
        (Inl e, w2) \<Rightarrow> (Err (failure ''remove'' staging e), w2)
      | (Inr _, w2) \<Rightarrow>
     (case create_dir_all staging w2 of
        (Inl e, w3) \<Rightarrow> (Err (failure ''create'' staging e), w3)
      | (Inr _, w3) \<Rightarrow>
     (case zstd_decoder U archive of
        Inl e \<Rightarrow> (Err (''read the embedded VM rootfs: '' @ io_display e), w3)
      | Inr _ \<Rightarrow>
     (case tar_unpack U archive staging w3 of
        (Inl e, w4) \<Rightarrow> (Err (failure ''unpack the embedded VM rootfs into'' staging e), w4)
      | (Inr _, w4) \<Rightarrow>
     (case fs_write (join staging MARKER) key w4 of
        (Inl e, w5) \<Rightarrow> (Err (failure ''write'' (join staging MARKER) e), w5)
      | (Inr _, w5) \<Rightarrow> (Ok (), w5)))))))"

fun sweep_entries :: "string \<Rightarrow> string \<Rightarrow> string list \<Rightarrow> world \<Rightarrow> world" where
  "sweep_entries root current [] w = w"
| "sweep_entries root current (name # names) w =
     (let path = join root name in
      if path_eq path current then sweep_entries root current names w
      else
        (case path_is_dir path w of
           (False, w1) \<Rightarrow> sweep_entries root current names w1
         | (True, w1) \<Rightarrow>
             if starts_with (to_string_lossy name) STAGING_PREFIX then sweep_entries root current names w1
             else sweep_entries root current names (snd (remove_dir_all path w1))))"

definition sweep_old_versions :: "string \<Rightarrow> string \<Rightarrow> world \<Rightarrow> world" where
  "sweep_old_versions root current w =
     (case read_dir root w of
        (Inl e, w1) \<Rightarrow> w1
      | (Inr names, w1) \<Rightarrow> sweep_entries root current names w1)"

definition staging_name :: "nat \<Rightarrow> string" where
  "staging_name pid = STAGING_PREFIX @ VERSION @ ''-'' @ fmt_dec pid"

definition install ::
  "unpackers \<Rightarrow> host_dns \<Rightarrow> nat \<Rightarrow> string \<Rightarrow> string \<Rightarrow> string \<Rightarrow> (world, string, string) action" where
  "install U h pid archive digest root w =
     (if archive = [] then (Err NOT_EMBEDDED, w)
      else
        (let dir = join root VERSION; key = cache_key digest; staging = join root (staging_name pid) in
         case already_installed h dir key w of
           (True, w1) \<Rightarrow> (Ok dir, w1)
         | (False, w1) \<Rightarrow>
        (case stage U archive key staging w1 of
           (Inl err, w2) \<Rightarrow> (Err err, snd (remove_dir_all staging w2))
         | (Inr _, w2) \<Rightarrow>
        (case already_installed h dir key w2 of
           (True, w3) \<Rightarrow> (Ok dir, snd (remove_dir_all staging w3))
         | (False, w3) \<Rightarrow>
        (case path_exists dir w3 of
           (there, w4) \<Rightarrow>
        (case (if there then remove_dir_all dir w4 else (Ok (), w4)) of
           (Inl err, w5) \<Rightarrow>
             (Err (failure ''remove stale VM rootfs'' dir err), snd (remove_dir_all staging w5))
         | (Inr _, w5) \<Rightarrow>
        (case rename staging dir w5 of
           (Inl err, w6) \<Rightarrow>
             (Err (failure ''install VM rootfs into'' dir err), snd (remove_dir_all staging w6))
         | (Inr _, w6) \<Rightarrow> (Ok dir, sweep_old_versions root dir w6))))))))"

definition ensure_extracted ::
  "unpackers \<Rightarrow> host_dns \<Rightarrow> nat \<Rightarrow> string \<Rightarrow> string \<Rightarrow> string option \<Rightarrow> (world, string, string) action" where
  "ensure_extracted U h pid archive digest data_dir w =
     (case cache_root data_dir of
        Inl e \<Rightarrow> (Err e, w)
      | Inr root \<Rightarrow> install U h pid archive digest root w)"

subsection \<open>What is relied on\<close>

text \<open>An unpacking works in its destination: it leaves a directory there, whether it fails or not,
  and the archive has no link of the marker's name.\<close>

definition unpack_laws :: "unpackers \<Rightarrow> string \<Rightarrow> bool" where
  "unpack_laws U archive =
     (\<forall>p q n w res w'. reaches p (q @ [n]) \<longrightarrow> dir_at (tree w) (q @ [n]) \<longrightarrow>
        tar_unpack U archive p w = (res, w') \<longrightarrow>
        touched q n w w' \<and> dir_at (tree w') (q @ [n]) \<and>
        (no_link (tree w) (q @ [n, MARKER]) \<longrightarrow> no_link (tree w') (q @ [n, MARKER])) \<and>
        (no_faults w \<longrightarrow> no_faults w'))"

lemma unpackD:
  assumes "unpack_laws U archive" "reaches p (q @ [n])" "dir_at (tree w) (q @ [n])"
    "tar_unpack U archive p w = (res, w')"
  shows "touched q n w w'" "dir_at (tree w') (q @ [n])"
    "no_link (tree w) (q @ [n, MARKER]) \<Longrightarrow> no_link (tree w') (q @ [n, MARKER])"
    "no_faults w \<Longrightarrow> no_faults w'"
  using assms unfolding unpack_laws_def by blast+

lemma plain_names [simp]: "plain_name VERSION" "plain_name MARKER"
  by code_simp+

lemma plain_staging_name [simp]: "plain_name (staging_name pid)"
proof -
  have "c \<noteq> CHR ''/''" if "c \<in> set (fmt_dec pid)" for c
    using fmt_dec_free [of "CHR ''/''"] that by (auto simp: to_digit_def)
  then show ?thesis
    by (auto simp: plain_name_def staging_name_def STAGING_PREFIX_def VERSION_def is_sep_def list_all_iff)
qed

lemma staging_not_version [simp]: "staging_name pid \<noteq> VERSION" "VERSION \<noteq> staging_name pid"
  by (auto simp: staging_name_def STAGING_PREFIX_def VERSION_def)

lemma staging_not_hit: "starts_with (staging_name pid) STAGING_PREFIX"
  by (simp add: starts_with_def staging_name_def)

text \<open>No link stands where the installation works.\<close>

definition clean :: "node \<Rightarrow> string list \<Rightarrow> nat \<Rightarrow> bool" where
  "clean r q pid =
     (direct r q \<and>
      list_all (no_link r) [q @ [VERSION], q @ [VERSION, MARKER], q @ [staging_name pid],
        q @ [staging_name pid, MARKER]])"

subsection \<open>The marker\<close>

definition marker_recorded :: "world \<Rightarrow> string \<Rightarrow> string \<Rightarrow> bool" where
  "marker_recorded w dir key = (\<exists>m c. stat w (join dir MARKER) = Ok (File m c) \<and> valid_utf8 c \<and> trim c = key)"

lemma marker_matches_same: "marker_matches dir key w = (b, w1) \<Longrightarrow> same_files w w1"
  by (auto simp: marker_matches_def split: prod.splits sum.splits dest: read_to_string_same)

lemma marker_matches_recorded:
  assumes "marker_matches dir key w = (True, w1)"
  shows "marker_recorded w dir key"
proof -
  obtain f w0 where f: "next_fault w = (f, w0)" by fastforce
  then have "tree w0 = tree w" "cwd w0 = cwd w" by (simp_all add: next_faultD)
  with assms f show ?thesis
    by (auto simp: marker_matches_def marker_recorded_def read_to_string_def
        split: prod.splits sum.splits option.splits node.splits if_splits)
qed

lemma already_installed_same:
  assumes "already_installed h dir key w = (b, w1)"
  shows "same_files w w1"
proof -
  obtain b0 w0 where m: "marker_matches dir key w = (b0, w0)" by fastforce
  obtain r w2 where c: "check_rootfs (vm_config_new h dir) w0 = (r, w2)" by fastforce
  have "w1 = w0 \<or> w1 = w2"
    using assms m c by (cases b0; cases r) (simp_all add: already_installed_def)
  then show ?thesis
    using marker_matches_same [OF m] same_files_trans [OF marker_matches_same [OF m] check_rootfs_same [OF c]]
    by (elim disjE) simp_all
qed

lemma already_installed_recorded:
  assumes "already_installed h dir key w = (True, w1)"
  shows "marker_recorded w dir key"
proof -
  obtain b0 w0 where m: "marker_matches dir key w = (b0, w0)" by fastforce
  with assms have b0 by (cases b0) (auto simp: already_installed_def)
  with m marker_matches_recorded show ?thesis by simp
qed

lemma marker_recorded_direct:
  assumes "reaches root q" "direct (tree w) q" "no_link (tree w) (q @ [VERSION])"
    "no_link (tree w) (q @ [VERSION, MARKER])"
  shows "marker_recorded w (join root VERSION) key \<longleftrightarrow>
    (\<exists>m c. lookup (tree w) (q @ [VERSION, MARKER]) = Some (File m c) \<and> valid_utf8 c \<and> trim c = key)"
proof -
  have r: "reaches (join (join root VERSION) MARKER) ((q @ [VERSION]) @ [MARKER])"
    using assms(1) by (intro reaches_join) simp_all
  show ?thesis
  proof (cases "dir_at (tree w) (q @ [VERSION])")
    case True
    then show ?thesis
      using stat_direct [OF r True] assms(4)
      by (auto simp: marker_recorded_def ok_or_def split: option.splits)
  next
    case False
    then have none: "lookup (tree w) (q @ [VERSION, MARKER]) = None"
      using lookup_no_dir [of "tree w" "q @ [VERSION]" MARKER] by simp
    have "\<exists>e. stat w (join (join root VERSION) MARKER) = Err e"
    proof (cases "dir_at (tree w) q")
      case d: True
      have "walk (tree w) SYMLOOP_MAX (cwd w) (components (join (join root VERSION) MARKER)) =
        walk (tree w) SYMLOOP_MAX q [Normal VERSION, Normal MARKER]"
        using walk_direct [of "tree w" "[]" q SYMLOOP_MAX "[Normal VERSION, Normal MARKER]"] d r
        by (simp add: reaches_def)
      with d False assms(3) reaches_nonempty [OF r] show ?thesis
        by (auto simp: stat_in_def resolve_in_def no_link_def dir_at_def split: option.splits node.splits)
    next
      case d: False
      have "direct (tree w) (q @ [VERSION])"
        using assms(2) d lookup_no_dir [OF d, of VERSION]
        by (auto simp: direct_def)
      from stat_direct_missing [OF r this False] show ?thesis .
    qed
    with none show ?thesis by (auto simp: marker_recorded_def)
  qed
qed

subsection \<open>Staging\<close>

definition file_at :: "node \<Rightarrow> string list \<Rightarrow> bool" where
  "file_at r p = (case lookup r p of Some n \<Rightarrow> is_file_node n | None \<Rightarrow> False)"

text \<open>Removing a directory that may be there.\<close>

definition stale_removed :: "string \<Rightarrow> world \<Rightarrow> (io_error, unit) result \<Rightarrow> world \<Rightarrow> bool" where
  "stale_removed dir w res w' =
     (\<exists>there w1. path_exists dir w = (there, w1) \<and>
        (if there then remove_dir_all dir w1 else (Ok (), w1)) = (res, w'))"

lemma stale_removed_direct:
  assumes "stale_removed p w res w'" "reaches p (q @ [n])" "direct (tree w) q"
  shows "worked q n w w'" "no_faults w \<Longrightarrow> no_faults w'"
    "res = Ok () \<Longrightarrow> lookup (tree w') (q @ [n]) = None \<or> tree w' = tree w"
proof -
  obtain there w1 where 1: "path_exists p w = (there, w1)"
    and 2: "(if there then remove_dir_all p w1 else (Ok (), w1)) = (res, w')"
    using assms(1) by (auto simp: stale_removed_def)
  have s: "same_files w w1" using path_exists_same [OF 1] .
  then have d1: "direct (tree w1) q" using assms(3) by (simp add: same_files_def)
  have "worked q n w1 w'"
    using 2 remove_dir_all_direct(1) [OF _ assms(2) d1] d1
    by (cases there) (auto intro: touched_worked worked.same)
  then show "worked q n w w'" using worked.same [OF s assms(3)] worked.trans by blast
  show "no_faults w \<Longrightarrow> no_faults w'"
  proof -
    assume "no_faults w"
    then have "no_faults w1" using no_faults_queries(3) [OF 1] by simp
    with 2 show "no_faults w'" using no_faults_remove_dir_all by (cases there) auto
  qed
  show "res = Ok () \<Longrightarrow> lookup (tree w') (q @ [n]) = None \<or> tree w' = tree w"
    using 2 s remove_dir_all_direct(2) [OF _ assms(2) d1, of res w']
    by (cases there) (auto simp: same_files_def)
qed

lemma stale_removed_no_faults:
  assumes "stale_removed p w res w'" "reaches p (q @ [n])" "direct (tree w) q"
    "no_link (tree w) (q @ [n])" "no_faults w"
  shows "res = Ok () \<Longrightarrow> lookup (tree w') (q @ [n]) = None"
    "res \<noteq> Ok () \<Longrightarrow> tree w' = tree w"
proof -
  obtain w1 where 1: "path_exists p w = (lookup (tree w) (q @ [n]) \<noteq> None, w1)" "no_faults w1" "same_files w w1"
    using path_exists_direct [OF assms(5,2,3,4)] .
  then have 2: "(if lookup (tree w) (q @ [n]) \<noteq> None then remove_dir_all p w1 else (Ok (), w1)) = (res, w')"
    using assms(1) by (auto simp: stale_removed_def)
  have w1: "tree w1 = tree w" "cwd w1 = cwd w" using 1(3) by (simp_all add: same_files_def)
  have d1: "direct (tree w1) q" using w1 assms(3) by simp
  show "res = Ok () \<Longrightarrow> lookup (tree w') (q @ [n]) = None"
    using 2 w1 remove_dir_all_direct(2) [OF _ assms(2) d1, of res w']
    by (cases "lookup (tree w) (q @ [n])") auto
  show "tree w' = tree w" if nok: "res \<noteq> Ok ()"
  proof (cases "lookup (tree w) (q @ [n])")
    case None
    with 2 nok show ?thesis by auto
  next
    case (Some m)
    then have dq: "dir_at (tree w1) q" using w1 lookup_no_dir [of "tree w" q n] by auto
    show ?thesis
    proof (cases "is_file_node m")
      case False
      obtain w'' where "remove_dir_all p w1 = (Ok (), w'')"
        using remove_dir_all_works [OF 1(2) assms(2) dq _ False] Some w1(1) by metis
      with 2 Some nok show ?thesis by simp
    next
      case True
      then obtain a c where "m = File a c" by (cases m) auto
      moreover have "resolve_parent w1 p = Ok (q, n)"
        using resolve_parent_direct [OF assms(2) d1] dq by simp
      moreover have "remove_dir_all p w1 = (res, w')" using 2 Some by simp
      ultimately show ?thesis using Some w1 by (auto simp: remove_dir_all_def)
    qed
  qed
qed

lemma stale_removed_works:
  assumes "stale_removed p w res w'" "no_faults w" "reaches p (q @ [n])" "direct (tree w) q"
    "no_link (tree w) (q @ [n])" "\<not> file_at (tree w) (q @ [n])"
  shows "res = Ok ()"
proof -
  obtain w1 where 1: "path_exists p w = (lookup (tree w) (q @ [n]) \<noteq> None, w1)" "no_faults w1" "same_files w w1"
    using path_exists_direct [OF assms(2-5)] .
  then have 2: "(if lookup (tree w) (q @ [n]) \<noteq> None then remove_dir_all p w1 else (Ok (), w1)) = (res, w')"
    using assms(1) by (auto simp: stale_removed_def)
  show ?thesis
  proof (cases "lookup (tree w) (q @ [n])")
    case (Some m)
    then have "dir_at (tree w1) q" using lookup_no_dir [of "tree w" q n] 1(3) by (auto simp: same_files_def)
    moreover have "\<not> is_file_node m" using Some assms(6) by (simp add: file_at_def)
    ultimately obtain w'' where "remove_dir_all p w1 = (Ok (), w'')"
      using remove_dir_all_works [OF 1(2) assms(3)] Some 1(3) by (metis same_files_def)
    with 2 Some show ?thesis by simp
  qed (use 2 in simp)
qed

text \<open>Up to the unpacking: the staging directory is there, and without faults it is empty.\<close>

lemma staging_created:
  assumes "create_dir_all p w = (res, w')" "reaches p (q @ [n])" "direct (tree w) q" "no_link (tree w) (q @ [n])"
  shows "worked q n w w'" "res = Ok () \<Longrightarrow> dir_at (tree w') (q @ [n])"
    "lookup (tree w') (q @ [n, x]) = lookup (tree w) (q @ [n, x])"
    "res = Ok () \<Longrightarrow> lookup (tree w) (q @ [n]) = None \<Longrightarrow> lookup (tree w') (q @ [n]) = Some (Dir [])"
proof -
  have "worked q n w w' \<and> (res = Ok () \<longrightarrow> dir_at (tree w') (q @ [n])) \<and>
      lookup (tree w') (q @ [n, x]) = lookup (tree w) (q @ [n, x]) \<and>
      (res = Ok () \<longrightarrow> lookup (tree w) (q @ [n]) = None \<longrightarrow> lookup (tree w') (q @ [n]) = Some (Dir []))"
  proof (cases "file_at (tree w) (q @ [n])")
    case True
    then obtain m c where "lookup (tree w) (q @ [n]) = Some (File m c)"
      by (auto simp: file_at_def split: option.splits elim: is_file_node.elims)
    then have "res = Err already_exists" "w' = w" using create_dir_all_file [OF assms(2)] assms(1) by auto
    then show ?thesis using worked.same assms(3) by auto
  next
    case False
    then have "is_dir_node m" if "lookup (tree w) (q @ [n]) = Some m" for m
      using that assms(4) by (cases m) (simp_all add: file_at_def no_link_def)
    then have "direct (tree w) (q @ [n])" using assms(3) by (auto simp: direct_snoc split: option.split)
    note c = create_dir_all_direct [OF assms(1,2) this]
    have "worked q n w w'" using made_on_worked [OF c(1)] c(2) by (simp add: direct_snoc)
    moreover have "\<not> prefix (q @ [n, x]) (q @ [n])" by simp
    then have "lookup (tree w') (q @ [n, x]) = lookup (tree w) (q @ [n, x])"
      using c(1) by (simp only: made_on_def) blast
    ultimately show ?thesis using c by simp
  qed
  then show "worked q n w w'" "res = Ok () \<Longrightarrow> dir_at (tree w') (q @ [n])"
    "lookup (tree w') (q @ [n, x]) = lookup (tree w) (q @ [n, x])"
    "res = Ok () \<Longrightarrow> lookup (tree w) (q @ [n]) = None \<Longrightarrow> lookup (tree w') (q @ [n]) = Some (Dir [])" by blast+
qed

lemma staging_prepared:
  assumes "stale_removed p w (Ok ()) w2" "create_dir_all p w2 = (res, w3)"
    and r: "reaches p (q @ [n])" and d: "direct (tree w) q" and nl: "no_link (tree w) (q @ [n])"
  shows "worked q n w w3" "res = Ok () \<Longrightarrow> dir_at (tree w3) (q @ [n])"
    "no_link (tree w) (q @ [n, x]) \<Longrightarrow> no_link (tree w3) (q @ [n, x])"
    "no_faults w \<Longrightarrow> no_faults w3"
    "no_faults w \<Longrightarrow> res = Ok () \<Longrightarrow> lookup (tree w3) (q @ [n]) = Some (Dir [])"
    "no_faults w \<Longrightarrow> direct (tree w3) (q @ [n])"
proof -
  note rem = stale_removed_direct [OF assms(1) r d]
  have d2: "direct (tree w2) q" using worked.sound_after [OF rem(1)] .
  have nl2: "no_link (tree w2) (q @ [n])" using rem(3) nl by (auto simp: no_link_def)
  note made = staging_created [OF assms(2) r d2 nl2]
  show "worked q n w w3" by (rule worked.trans [OF rem(1) made(1)])
  show "res = Ok () \<Longrightarrow> dir_at (tree w3) (q @ [n])" by (rule made(2))
  show "no_link (tree w) (q @ [n, x]) \<Longrightarrow> no_link (tree w3) (q @ [n, x])"
    using rem(3) made(3) [of x] lookup_below_none [of "tree w2" "q @ [n]" "[x]"] by (auto simp: no_link_def)
  show "no_faults w \<Longrightarrow> no_faults w3" using rem(2) no_faults_create_dir_all [OF assms(2) r] by blast
  assume "no_faults w"
  then have gone: "lookup (tree w2) (q @ [n]) = None"
    using stale_removed_no_faults(1) [OF assms(1) r d nl] by simp
  then show "res = Ok () \<Longrightarrow> lookup (tree w3) (q @ [n]) = Some (Dir [])" using made(4) by blast
  show "direct (tree w3) (q @ [n])"
    using create_dir_all_direct(2) [OF assms(2) r] gone d2 by (simp add: direct_snoc)
qed

text \<open>From the unpacking to the marker.\<close>

lemma staging_marked:
  assumes "tar_unpack U archive p w = (Ok (), w1)" "fs_write (join p MARKER) key w1 = (res, w2)"
    and laws: "unpack_laws U archive" and r: "reaches p (q @ [n])" and d: "dir_at (tree w) (q @ [n])"
    and nl: "no_link (tree w) (q @ [n, MARKER])"
  shows "worked q n w w2" "dir_at (tree w2) (q @ [n])" "no_faults w \<Longrightarrow> no_faults w2"
    "res = Ok () \<Longrightarrow> \<exists>m. lookup (tree w2) (q @ [n, MARKER]) = Some (File m key)"
    "x \<noteq> MARKER \<Longrightarrow> lookup (tree w2) (q @ n # x # s) = lookup (tree w1) (q @ n # x # s)"
proof -
  note un = unpackD [OF laws r d assms(1)]
  have dq: "direct (tree w) q" "dir_at (tree w1) q"
    using direct_dir_at [OF d] un(2) dir_at_prefix [of "tree w1" q "[n]"] by (simp_all add: direct_snoc)
  have rm: "reaches (join p MARKER) ((q @ [n]) @ [MARKER])" using reaches_join [OF r] by simp
  have nl1: "no_link (tree w1) ((q @ [n]) @ [MARKER])" using un(3) nl by simp
  note wr = fs_write_direct [OF assms(2) rm direct_dir_at [OF un(2)] nl1]
  show dir2: "dir_at (tree w2) (q @ [n])" using touched_dir [OF wr(1) un(2)] .
  have "touched q n w1 w2"
    using touched_below [OF wr(1)] wr(1) dq(2) below_only_dir [of q n "tree w1" "tree w2"]
    by (auto simp: touched_def)
  then show "worked q n w w2"
    using touched_worked [OF un(1) dq(1)] touched_worked worked.sound_after worked.trans by blast
  show "no_faults w \<Longrightarrow> no_faults w2" using un(4) no_faults_fs_write [OF assms(2)] by blast
  show "res = Ok () \<Longrightarrow> \<exists>m. lookup (tree w2) (q @ [n, MARKER]) = Some (File m key)" using wr(2) by simp
  show "x \<noteq> MARKER \<Longrightarrow> lookup (tree w2) (q @ n # x # s) = lookup (tree w1) (q @ n # x # s)"
    using touched_beside [OF wr(1), of x s] by simp
qed

text \<open>The ways through \<open>stage\<close>.\<close>

lemma stage_outcomes:
  assumes "stage U archive key p w = (res, w')"
  obtains
    (not_removed) e where "stale_removed p w (Inl e) w'" "\<not> is_ok res"
  | (not_created) w2 r where "stale_removed p w (Ok ()) w2" "create_dir_all p w2 = (r, w')" "\<not> is_ok res"
      "is_ok r \<Longrightarrow> \<not> is_ok (zstd_decoder U archive)"
  | (not_unpacked) w2 w3 e where "stale_removed p w (Ok ()) w2" "create_dir_all p w2 = (Ok (), w3)"
      "tar_unpack U archive p w3 = (Inl e, w')" "\<not> is_ok res"
  | (written) w2 w3 w4 r where "stale_removed p w (Ok ()) w2" "create_dir_all p w2 = (Ok (), w3)"
      "tar_unpack U archive p w3 = (Ok (), w4)" "fs_write (join p MARKER) key w4 = (r, w')" "is_ok res = is_ok r"
proof -
  obtain there w1 where 1: "path_exists p w = (there, w1)" by fastforce
  obtain r2 w2 where 2: "(if there then remove_dir_all p w1 else (Ok (), w1)) = (r2, w2)" by fastforce
  obtain r3 w3 where 3: "create_dir_all p w2 = (r3, w3)" by fastforce
  obtain r4 w4 where 4: "tar_unpack U archive p w3 = (r4, w4)" by fastforce
  obtain r5 w5 where 5: "fs_write (join p MARKER) key w4 = (r5, w5)" by fastforce
  have st: "stale_removed p w r2 w2" using 1 2 by (auto simp: stale_removed_def)
  note run = assms [unfolded stage_def 1 prod.case 2 3 4 5]
  show thesis
  proof (cases r2)
    case (Inl e)
    with run st show thesis by (intro not_removed) auto
  next
    case r2: (Inr u2)
    show thesis
    proof (cases "\<exists>e. r3 = Inl e \<or> zstd_decoder U archive = Inl e")
      case True
      with run st r2 3 show thesis by (intro not_created [of w2 r3]) (auto split: sum.splits)
    next
      case False
      then obtain u3 z where r3: "r3 = Inr u3" "zstd_decoder U archive = Inr z" by (meson sum.exhaust)
      show thesis
      proof (cases r4)
        case (Inl e)
        with run st r2 r3 3 4 show thesis by (intro not_unpacked [of w2 w3]) auto
      next
        case (Inr u4)
        with run st r2 r3 3 4 5 show thesis by (intro written [of w2 w3 w4 r5]) (auto split: sum.splits)
      qed
    qed
  qed
qed

text \<open>The whole of \<open>stage\<close>.\<close>

lemma stage_effect:
  assumes "stage U archive key p w = (res, w')" and laws: "unpack_laws U archive"
    and r: "reaches p (q @ [n])" and d: "direct (tree w) q"
    and nl: "no_link (tree w) (q @ [n])" "no_link (tree w) (q @ [n, MARKER])"
  shows "worked q n w w'"
    and "res = Ok () \<Longrightarrow> \<exists>m. lookup (tree w') (q @ [n, MARKER]) = Some (File m key)"
    and "no_faults w \<Longrightarrow> no_faults w'"
    and "no_faults w \<Longrightarrow> res = Ok () \<Longrightarrow> \<exists>w1 w2. lookup (tree w1) (q @ [n]) = Some (Dir []) \<and>
      tar_unpack U archive p w1 = (Ok (), w2) \<and>
      (\<forall>x s. x \<noteq> MARKER \<longrightarrow> lookup (tree w') (q @ n # x # s) = lookup (tree w2) (q @ n # x # s))"
    and "no_faults w \<Longrightarrow> \<not> file_at (tree w) (q @ [n]) \<Longrightarrow> direct (tree w') (q @ [n])"
proof -
  have "worked q n w w' \<and> (res = Ok () \<longrightarrow> (\<exists>m. lookup (tree w') (q @ [n, MARKER]) = Some (File m key))) \<and>
    (no_faults w \<longrightarrow> no_faults w') \<and>
    (no_faults w \<longrightarrow> res = Ok () \<longrightarrow> (\<exists>w1 w2. lookup (tree w1) (q @ [n]) = Some (Dir []) \<and>
      tar_unpack U archive p w1 = (Ok (), w2) \<and>
      (\<forall>x s. x \<noteq> MARKER \<longrightarrow> lookup (tree w') (q @ n # x # s) = lookup (tree w2) (q @ n # x # s)))) \<and>
    (no_faults w \<longrightarrow> \<not> file_at (tree w) (q @ [n]) \<longrightarrow> direct (tree w') (q @ [n]))"
    using assms(1)
  proof (cases rule: stage_outcomes)
    case (not_removed e)
    have "no_faults w \<Longrightarrow> \<not> file_at (tree w) (q @ [n]) \<Longrightarrow> False"
      using stale_removed_works [OF not_removed(1) _ r d nl(1)] by simp
    with stale_removed_direct(1,2) [OF not_removed(1) r d] not_removed(2) show ?thesis by auto
  next
    case (not_created w2 r3)
    note prep = staging_prepared [OF not_created(1,2) r d nl(1)]
    show ?thesis using prep(1,4,6) not_created(3) by auto
  next
    case (not_unpacked w2 w3 e)
    note prep = staging_prepared [OF not_unpacked(1,2) r d nl(1)]
    note un = unpackD [OF laws r prep(2) not_unpacked(3)]
    have "worked q n w w'"
      using worked.trans [OF prep(1) touched_worked [OF un(1) worked.sound_after [OF prep(1)]]] by simp
    then show ?thesis using prep(4) un(2,4) direct_dir_at not_unpacked(4) by auto
  next
    case (written w2 w3 w4 r5)
    note prep = staging_prepared [OF written(1,2) r d nl(1)]
    have dir: "dir_at (tree w3) (q @ [n])" using prep(2) by simp
    note mk = staging_marked [OF written(3,4) laws r dir prep(3) [OF nl(2)]]
    have "res = Ok () \<longleftrightarrow> r5 = Ok ()" using written(5) by (cases res; cases r5) auto
    with worked.trans [OF prep(1) mk(1)] mk(2-5) prep(4,5) written(3) direct_dir_at show ?thesis by blast
  qed
  then show "worked q n w w'"
    and "res = Ok () \<Longrightarrow> \<exists>m. lookup (tree w') (q @ [n, MARKER]) = Some (File m key)"
    and "no_faults w \<Longrightarrow> no_faults w'"
    and "no_faults w \<Longrightarrow> res = Ok () \<Longrightarrow> \<exists>w1 w2. lookup (tree w1) (q @ [n]) = Some (Dir []) \<and>
      tar_unpack U archive p w1 = (Ok (), w2) \<and>
      (\<forall>x s. x \<noteq> MARKER \<longrightarrow> lookup (tree w') (q @ n # x # s) = lookup (tree w2) (q @ n # x # s))"
    and "no_faults w \<Longrightarrow> \<not> file_at (tree w) (q @ [n]) \<Longrightarrow> direct (tree w') (q @ [n])"
    by blast+
qed

subsection \<open>Sweeping\<close>

lemma path_eq_entry:
  assumes "reaches root q" "plain_name n" "plain_name m"
  shows "path_eq (join root n) (join root m) \<longleftrightarrow> n = m"
  using reaches_join [OF assms(1,2)] reaches_join [OF assms(1,3)] by (auto simp: path_eq_def reaches_def)

text \<open>What the sweep spares by name.\<close>

definition swept_name :: "string \<Rightarrow> string \<Rightarrow> bool" where
  "swept_name current n = (n \<noteq> current \<and> \<not> starts_with (to_string_lossy n) STAGING_PREFIX)"

lemma path_is_dir_direct:
  assumes "path_is_dir p w = (True, w1)" "reaches p (q @ [n])" "direct (tree w) q"
    "no_link (tree w) (q @ [n])"
  shows "dir_at (tree w) (q @ [n])"
proof -
  obtain f w0 where f: "next_fault w = (f, w0)" by fastforce
  then have "tree w0 = tree w" "cwd w0 = cwd w" by (simp_all add: next_faultD)
  then obtain m where m: "stat w p = Ok m" "is_dir_node m"
    using assms(1) f by (auto simp: path_is_dir_def metadata_def split: option.splits sum.splits)
  then have "dir_at (tree w) q" using stat_direct_missing [OF assms(2,3)] by auto
  then have "lookup (tree w) (q @ [n]) = Some m"
    using stat_direct [OF assms(2) _ assms(4)] m(1) by (cases "lookup (tree w) (q @ [n])") simp_all
  with m(2) show ?thesis by (simp add: dir_at_def)
qed

lemma sweep_step:
  assumes "reaches root q" "plain_name n" "plain_name current" "direct (tree w) q"
  shows "\<exists>w1. sweep_entries root (join root current) (n # names) w = sweep_entries root (join root current) names w1 \<and>
    touched q n w w1 \<and>
    (tree w1 \<noteq> tree w \<longrightarrow> swept_name current n \<and> \<not> (\<exists>m c. lookup (tree w) (q @ [n]) = Some (File m c)))"
proof -
  let ?p = "join root n"
  note r = reaches_join [OF assms(1,2)]
  obtain b w1 where b: "path_is_dir ?p w = (b, w1)" by fastforce
  obtain res w2 where rm: "remove_dir_all ?p w1 = (res, w2)" by fastforce
  have s: "same_files w w1" using path_is_dir_same [OF b] .
  then have d1: "direct (tree w1) q" using assms(4) by (simp add: same_files_def)
  have t: "touched q n w w2"
    using remove_dir_all_direct(1) [OF rm r d1] s by (auto simp: touched_def same_files_def)
  have nofile: "\<not> (\<exists>m c. lookup (tree w) (q @ [n]) = Some (File m c))" if b
  proof
    assume "\<exists>m c. lookup (tree w) (q @ [n]) = Some (File m c)"
    then show False
      using path_is_dir_direct [OF b [unfolded eqTrueI [OF that]] r assms(4)] that
      by (auto simp: no_link_def dir_at_def)
  qed
  consider "n = current" | "n \<noteq> current" "\<not> b \<or> starts_with (to_string_lossy n) STAGING_PREFIX"
    | "swept_name current n" b
    by (auto simp: swept_name_def)
  then show ?thesis
  proof cases
    case 1
    then show ?thesis
      by (intro exI [of _ w]) (simp add: touched_same path_eq_def Let_def)
  next
    case 2
    then show ?thesis
      using b s path_eq_entry [OF assms(1-3)]
      by (intro exI [of _ w1]) (cases b; auto simp: touched_same Let_def same_files_def)
  next
    case 3
    then show ?thesis
      using b rm t nofile path_eq_entry [OF assms(1-3)]
      by (intro exI [of _ w2]) (auto simp: Let_def swept_name_def)
  qed
qed

lemma sweep_entries_effect:
  assumes "reaches root q" "plain_name current" "direct (tree w) q" "list_all plain_name names"
  shows "inside q w (sweep_entries root (join root current) names w)"
    and "\<not> swept_name current x \<Longrightarrow>
      lookup (tree (sweep_entries root (join root current) names w)) (q @ x # s) = lookup (tree w) (q @ x # s)"
    and "lookup (tree w) (q @ [x]) = Some (File m c) \<Longrightarrow>
      lookup (tree (sweep_entries root (join root current) names w)) (q @ [x]) = Some (File m c)"
proof -
  have "inside q w (sweep_entries root (join root current) names w) \<and>
    (\<forall>x s. \<not> swept_name current x \<longrightarrow>
      lookup (tree (sweep_entries root (join root current) names w)) (q @ x # s) = lookup (tree w) (q @ x # s)) \<and>
    (\<forall>x m c. lookup (tree w) (q @ [x]) = Some (File m c) \<longrightarrow>
      lookup (tree (sweep_entries root (join root current) names w)) (q @ [x]) = Some (File m c))"
    using assms(3,4)
  proof (induction names arbitrary: w)
    case Nil
    then show ?case by (simp add: inside_def)
  next
    case (Cons n names)
    then obtain w1 where
      eq: "sweep_entries root (join root current) (n # names) w = sweep_entries root (join root current) names w1" and
      t: "touched q n w w1" and
      ch: "tree w1 \<noteq> tree w \<longrightarrow> swept_name current n \<and> \<not> (\<exists>m c. lookup (tree w) (q @ [n]) = Some (File m c))"
      using sweep_step [OF assms(1) _ assms(2), of n w names] by auto
    have d1: "direct (tree w1) q" using touched_direct [OF t] Cons.prems(1) .
    note ih = Cons.IH [OF d1]
    have "inside q w w1" using touched_worked [OF t Cons.prems(1)] worked_inside by blast
    then have 1: "inside q w (sweep_entries root (join root current) names w1)"
      using ih Cons.prems(2) inside.trans by auto
    have 2: "lookup (tree w1) (q @ x # s) = lookup (tree w) (q @ x # s)" if "\<not> swept_name current x" for x s
      using ch touched_beside [OF t, of x s] that by (cases "x = n") auto
    have 3: "lookup (tree w1) (q @ [x]) = Some (File m c)" if "lookup (tree w) (q @ [x]) = Some (File m c)" for x m c
      using ch touched_beside [OF t, of x "[]"] that by (cases "x = n") auto
    show ?case
      unfolding eq using 1 2 3 ih Cons.prems(2) by simp
  qed
  then show "inside q w (sweep_entries root (join root current) names w)"
    and "\<not> swept_name current x \<Longrightarrow>
      lookup (tree (sweep_entries root (join root current) names w)) (q @ x # s) = lookup (tree w) (q @ x # s)"
    and "lookup (tree w) (q @ [x]) = Some (File m c) \<Longrightarrow>
      lookup (tree (sweep_entries root (join root current) names w)) (q @ [x]) = Some (File m c)"
    by blast+
qed

lemma read_dir_names: "read_dir p w = (Inr names, w1) \<Longrightarrow> list_all plain_name names"
  by (auto simp: read_dir_def list_all_iff split: prod.splits option.splits sum.splits node.splits)

lemma sweep_effect:
  assumes "reaches root q" "direct (tree w) q"
  shows "inside q w (sweep_old_versions root (join root VERSION) w)"
    and "\<not> swept_name VERSION x \<Longrightarrow>
      lookup (tree (sweep_old_versions root (join root VERSION) w)) (q @ x # s) = lookup (tree w) (q @ x # s)"
    and "lookup (tree w) (q @ [x]) = Some (File m c) \<Longrightarrow>
      lookup (tree (sweep_old_versions root (join root VERSION) w)) (q @ [x]) = Some (File m c)"
proof -
  obtain r w1 where rd: "read_dir root w = (r, w1)" by fastforce
  have s: "tree w1 = tree w" "cwd w1 = cwd w" using read_dir_same [OF rd] by (simp_all add: same_files_def)
  then have d1: "direct (tree w1) q" using assms(2) by simp
  have "inside q w (sweep_old_versions root (join root VERSION) w) \<and>
    (\<not> swept_name VERSION x \<longrightarrow>
      lookup (tree (sweep_old_versions root (join root VERSION) w)) (q @ x # s) = lookup (tree w) (q @ x # s)) \<and>
    (lookup (tree w) (q @ [x]) = Some (File m c) \<longrightarrow>
      lookup (tree (sweep_old_versions root (join root VERSION) w)) (q @ [x]) = Some (File m c))"
  proof (cases r)
    case (Inl e)
    with rd s assms(2) show ?thesis by (simp add: sweep_old_versions_def inside_def)
  next
    case (Inr names)
    note eff = sweep_entries_effect [OF assms(1) plain_names(1) d1 read_dir_names [OF rd [unfolded Inr]]]
    show ?thesis
      using eff(1) eff(2) [of x s] eff(3) [of x m c] rd s Inr by (simp add: sweep_old_versions_def inside_def)
  qed
  then show "inside q w (sweep_old_versions root (join root VERSION) w)"
    and "\<not> swept_name VERSION x \<Longrightarrow>
      lookup (tree (sweep_old_versions root (join root VERSION) w)) (q @ x # s) = lookup (tree w) (q @ x # s)"
    and "lookup (tree w) (q @ [x]) = Some (File m c) \<Longrightarrow>
      lookup (tree (sweep_old_versions root (join root VERSION) w)) (q @ [x]) = Some (File m c)"
    by blast+
qed

text \<open>C17. The sweep never loses what it must spare, whatever fails under it: the rootfs just
  installed and every directory still being unpacked into keep everything in them, plain
  files stay as they are, and nothing outside the cache is touched.\<close>
theorem sweep_spares:
  assumes "reaches root q" "direct (tree w) q"
  shows "below_only q (tree w) (tree (sweep_old_versions root (join root VERSION) w)) \<and>
    (\<forall>x s. x = VERSION \<or> starts_with (to_string_lossy x) STAGING_PREFIX \<longrightarrow>
      lookup (tree (sweep_old_versions root (join root VERSION) w)) (q @ x # s) = lookup (tree w) (q @ x # s)) \<and>
    (\<forall>x m c. lookup (tree w) (q @ [x]) = Some (File m c) \<longrightarrow>
      lookup (tree (sweep_old_versions root (join root VERSION) w)) (q @ [x]) = Some (File m c))"
  using sweep_effect [OF assms] by (auto simp: inside_def swept_name_def)

subsection \<open>Installing\<close>

text \<open>The ways through \<open>install\<close>, with the worlds on the way.\<close>

lemma install_outcomes:
  fixes root pid digest
  defines "dir \<equiv> join root VERSION" and "key \<equiv> cache_key digest"
    and "staging \<equiv> join root (staging_name pid)"
  assumes "archive \<noteq> []" and run: "install U h pid archive digest root w = (res, w')"
  obtains
    (hit) "already_installed h dir key w = (True, w')" "res = Ok dir"
  | (not_staged) w1 w2 e where "already_installed h dir key w = (False, w1)"
      "stage U archive key staging w1 = (Inl e, w2)" "res = Err e" "w' = snd (remove_dir_all staging w2)"
  | (raced) w1 w2 w3 where "already_installed h dir key w = (False, w1)"
      "stage U archive key staging w1 = (Inr (), w2)" "already_installed h dir key w2 = (True, w3)"
      "res = Ok dir" "w' = snd (remove_dir_all staging w3)"
  | (stale) w1 w2 w3 w4 e where "already_installed h dir key w = (False, w1)"
      "stage U archive key staging w1 = (Inr (), w2)" "already_installed h dir key w2 = (False, w3)"
      "stale_removed dir w3 (Inl e) w4" "is_ok res = False" "w' = snd (remove_dir_all staging w4)"
  | (not_moved) w1 w2 w3 w4 w5 e where "already_installed h dir key w = (False, w1)"
      "stage U archive key staging w1 = (Inr (), w2)" "already_installed h dir key w2 = (False, w3)"
      "stale_removed dir w3 (Inr ()) w4" "rename staging dir w4 = (Inl e, w5)" "is_ok res = False"
      "w' = snd (remove_dir_all staging w5)"
  | (moved) w1 w2 w3 w4 w5 where "already_installed h dir key w = (False, w1)"
      "stage U archive key staging w1 = (Inr (), w2)" "already_installed h dir key w2 = (False, w3)"
      "stale_removed dir w3 (Inr ()) w4" "rename staging dir w4 = (Inr (), w5)" "res = Ok dir"
      "w' = sweep_old_versions root dir w5"
proof -
  obtain b1 w1 where q1: "already_installed h dir key w = (b1, w1)" by fastforce
  obtain r2 w2 where q2: "stage U archive key staging w1 = (r2, w2)" by fastforce
  obtain b3 w3 where q3: "already_installed h dir key w2 = (b3, w3)" by fastforce
  obtain there w3' where q4: "path_exists dir w3 = (there, w3')" by fastforce
  obtain r4 w4 where q5: "(if there then remove_dir_all dir w3' else (Ok (), w3')) = (r4, w4)" by fastforce
  obtain r5 w5 where q6: "rename staging dir w4 = (r5, w5)" by fastforce
  have st: "stale_removed dir w3 r4 w4" using q4 q5 by (auto simp: stale_removed_def)
  note run' = run [unfolded install_def Let_def, folded dir_def key_def staging_def]
  consider "b1" | e where "\<not> b1" "r2 = Inl e" | "\<not> b1" "r2 = Inr ()" "b3"
    | e where "\<not> b1" "r2 = Inr ()" "\<not> b3" "r4 = Inl e"
    | e where "\<not> b1" "r2 = Inr ()" "\<not> b3" "r4 = Inr ()" "r5 = Inl e"
    | "\<not> b1" "r2 = Inr ()" "\<not> b3" "r4 = Inr ()" "r5 = Inr ()"
    by (cases r2; cases r4; cases r5) auto
  then show thesis
  proof cases
    case 1
    with run' assms(4) q1 show thesis by (intro hit) auto
  next
    case 2
    with run' assms(4) q1 q2 show thesis by (intro not_staged) auto
  next
    case 3
    with run' assms(4) q1 q2 q3 show thesis by (intro raced) auto
  next
    case 4
    with run' assms(4) q1 q2 q3 q4 q5 st show thesis by (intro stale) auto
  next
    case 5
    with run' assms(4) q1 q2 q3 q4 q5 q6 st show thesis by (intro not_moved) auto
  next
    case 6
    with run' assms(4) q1 q2 q3 q4 q5 q6 st show thesis by (intro moved) auto
  qed
qed

text \<open>What every run has done by the end of staging.\<close>

lemma staged_effect:
  assumes "already_installed h dir key w = (b, w1)" "stage U archive key (join root (staging_name pid)) w1 = (res, w2)"
    and laws: "unpack_laws U archive" and r: "reaches root q" and c: "clean (tree w) q pid"
  shows "same_files w w1" "worked q (staging_name pid) w w2"
    "res = Ok () \<Longrightarrow> \<exists>m. lookup (tree w2) (q @ [staging_name pid, MARKER]) = Some (File m key)"
proof -
  show s: "same_files w w1" using already_installed_same [OF assms(1)] .
  then have t: "tree w1 = tree w" by (simp add: same_files_def)
  have d: "direct (tree w) q" "no_link (tree w) (q @ [staging_name pid])"
    "no_link (tree w) (q @ [staging_name pid, MARKER])"
    using c by (simp_all add: clean_def)
  note eff = stage_effect [OF assms(2) laws reaches_join [OF r plain_staging_name]]
  have "worked q (staging_name pid) w1 w2" using eff(1) d t by simp
  then show "worked q (staging_name pid) w w2"
    using worked.same [OF s d(1)] worked.trans by blast
  show "res = Ok () \<Longrightarrow> \<exists>m. lookup (tree w2) (q @ [staging_name pid, MARKER]) = Some (File m key)"
    using eff(2) d t by simp
qed

lemma inside_remove:
  assumes "reaches p (q @ [n])" "direct (tree w) q"
  shows "inside q w (snd (remove_dir_all p w))"
proof -
  obtain res w' where rm: "remove_dir_all p w = (res, w')" by fastforce
  from worked_inside [OF touched_worked [OF remove_dir_all_direct(1) [OF rm assms] assms(2)]] rm
  show ?thesis by simp
qed

lemma rename_inside:
  assumes "rename src dst w = (res, w')" "reaches src (q @ [a])" "reaches dst (q @ [b])" "a \<noteq> b"
    "direct (tree w) q"
  shows "inside q w w'"
  using rename_direct [OF assms]
proof
  assume "res = Ok () \<and> cwd w' = cwd w \<and> dir_at (tree w) q \<and>
    (\<exists>n. lookup (tree w) (q @ [a]) = Some n \<and>
       tree w' = insert_at (q @ [b]) n (remove_at (q @ [a]) (tree w)))"
  then obtain n where n: "cwd w' = cwd w" "dir_at (tree w) q"
    "tree w' = insert_at (q @ [b]) n (remove_at (q @ [a]) (tree w))" by blast
  have "below_only q (tree w) (tree w')"
    using below_only_up [OF below_only_remove_at [of "q @ [a]" "tree w"]]
      below_only_up [OF below_only_insert_at [of "q @ [b]" "remove_at (q @ [a]) (tree w)" n]]
      below_only_trans n(3) by auto
  moreover have "dir_at (tree w') q" using n(2,3) tree.move_keeps_parent by simp
  ultimately show ?thesis using n(1) by (simp add: inside_def direct_dir_at)
qed (use assms(5) in \<open>auto intro: inside.same\<close>)

text \<open>After a rename the name it moved to has everything the old one had.\<close>

lemma rename_moves:
  assumes "rename src dst w = (Ok (), w')" "reaches src (q @ [a])" "reaches dst (q @ [b])" "a \<noteq> b"
    "direct (tree w) q"
  shows "lookup (tree w') (q @ b # s) = lookup (tree w) (q @ a # s)"
proof -
  obtain n where n: "dir_at (tree w) q" "lookup (tree w) (q @ [a]) = Some n"
    "tree w' = insert_at (q @ [b]) n (remove_at (q @ [a]) (tree w))"
    using rename_direct [OF assms] by auto
  have "lookup (tree w') (q @ [b]) = Some n" using n tree.move_arrives by simp
  then show ?thesis
    using n(2) lookup_append [of "tree w'" "q @ [b]" s] lookup_append [of "tree w" "q @ [a]" s] by simp
qed

text \<open>The ways through \<open>install\<close> up to the second check and to the removal of the old version.\<close>

lemma second_check:
  assumes "already_installed h dir key w = (b, w1)" "stage U archive key (join root (staging_name pid)) w1 = (res, w2)"
    "already_installed h dir key w2 = (b3, w3)" and "unpack_laws U archive" "reaches root q" "clean (tree w) q pid"
  shows "worked q (staging_name pid) w w3" "same_files w2 w3"
proof -
  show s: "same_files w2 w3" using already_installed_same [OF assms(3)] .
  note w2 = staged_effect(2) [OF assms(1,2,4-6)]
  show "worked q (staging_name pid) w w3"
    by (rule worked.then_same [OF w2 s])
qed

lemma version_cleared:
  assumes "already_installed h dir key w = (b, w1)" "stage U archive key (join root (staging_name pid)) w1 = (Inr (), w2)"
    "already_installed h dir key w2 = (b3, w3)" "stale_removed (join root VERSION) w3 res w4"
    and "unpack_laws U archive" "reaches root q" "clean (tree w) q pid"
  shows "worked q VERSION w3 w4" "inside q w w4"
    "\<exists>m. lookup (tree w4) (q @ [staging_name pid, MARKER]) = Some (File m key)"
    "lookup (tree w4) (q @ staging_name pid # s) = lookup (tree w2) (q @ staging_name pid # s)"
proof -
  note w3 = second_check [OF assms(1-3,5-7)]
  show w4: "worked q VERSION w3 w4"
    using stale_removed_direct(1) [OF assms(4) reaches_join [OF assms(6)]] worked.sound_after [OF w3(1)] by simp
  show "inside q w w4"
    by (rule inside.trans [OF worked_inside [OF w3(1)] worked_inside [OF w4]])
  have eq: "lookup (tree w4) (q @ staging_name pid # t) = lookup (tree w2) (q @ staging_name pid # t)" for t
    using worked_beside [OF w4, of "staging_name pid" t] w3(2) by (simp add: same_files_def)
  then show "lookup (tree w4) (q @ staging_name pid # s) = lookup (tree w2) (q @ staging_name pid # s)" .
  show "\<exists>m. lookup (tree w4) (q @ [staging_name pid, MARKER]) = Some (File m key)"
    using staged_effect(3) [OF assms(1,2,5-7)] eq [of "[MARKER]"] by simp
qed

lemma moved_effect:
  assumes "already_installed h dir key w = (b, w1)" "stage U archive key (join root (staging_name pid)) w1 = (Inr (), w2)"
    "already_installed h dir key w2 = (b3, w3)" "stale_removed (join root VERSION) w3 res w4"
    "rename (join root (staging_name pid)) (join root VERSION) w4 = (Inr (), w5)"
    and laws: "unpack_laws U archive" "reaches root q" "clean (tree w) q pid"
  shows "inside q w (sweep_old_versions root (join root VERSION) w5)"
    "lookup (tree (sweep_old_versions root (join root VERSION) w5)) (q @ VERSION # s) =
       lookup (tree w2) (q @ staging_name pid # s)"
proof -
  have rd: "reaches (join root VERSION) (q @ [VERSION])"
    and rs: "reaches (join root (staging_name pid)) (q @ [staging_name pid])"
    using reaches_join [OF laws(2)] by simp_all
  note c = version_cleared [OF assms(1-4) laws]
  have 5: "inside q w w5" using inside.step [OF c(2) rename_inside [OF assms(5) rs rd]] by simp
  then have d5: "direct (tree w5) q" by (simp add: inside_def)
  show "inside q w (sweep_old_versions root (join root VERSION) w5)"
    using inside.trans [OF 5 sweep_effect(1) [OF laws(2) d5]] .
  have "\<not> swept_name VERSION VERSION" by (simp add: swept_name_def)
  then show "lookup (tree (sweep_old_versions root (join root VERSION) w5)) (q @ VERSION # s) =
      lookup (tree w2) (q @ staging_name pid # s)"
    using sweep_effect(2) [OF laws(2) d5] rename_moves [OF assms(5) rs rd _ worked.sound_after [OF c(1)]] c(4)
    by simp
qed

lemma install_inside:
  assumes "unpack_laws U archive" "reaches root q" "clean (tree w) q pid"
    "install U h pid archive digest root w = (res, w')" "archive \<noteq> []"
  shows "inside q w w'"
proof -
  have d: "direct (tree w) q" using assms(3) by (simp add: clean_def)
  have rd: "reaches (join root VERSION) (q @ [VERSION])"
    and rs: "reaches (join root (staging_name pid)) (q @ [staging_name pid])"
    using reaches_join [OF assms(2)] by simp_all
  show ?thesis
    using assms(5,4)
  proof (cases rule: install_outcomes)
    case hit
    then show ?thesis using already_installed_same inside.same d by blast
  next
    case (not_staged w1 w2 e)
    then show ?thesis
      using inside.step [OF worked_inside [OF staged_effect(2) [OF not_staged(1,2) assms(1-3)]]] inside_remove [OF rs]
      by simp
  next
    case (raced w1 w2 w3)
    then show ?thesis
      using inside.step [OF worked_inside [OF second_check(1) [OF raced(1-3) assms(1-3)]]] inside_remove [OF rs]
      by simp
  next
    case (stale w1 w2 w3 w4 e)
    then show ?thesis
      using inside.step [OF version_cleared(2) [OF stale(1-4) assms(1-3)]] inside_remove [OF rs] by simp
  next
    case (not_moved w1 w2 w3 w4 w5 e)
    have "inside q w w5"
      using inside.step [OF version_cleared(2) [OF not_moved(1-4) assms(1-3)] rename_inside [OF not_moved(5) rs rd]]
      by simp
    then show ?thesis using not_moved(7) inside.step inside_remove [OF rs] by simp
  next
    case (moved w1 w2 w3 w4 w5)
    then show ?thesis using moved_effect(1) [OF moved(1-5) assms(1-3)] by simp
  qed
qed

text \<open>C16. Whatever goes wrong in it, an installation changes nothing outside its cache directory: every
  file, link and directory that is not in it is as it was.\<close>
theorem install_stays_inside:
  assumes "unpack_laws U archive" "reaches root q" "clean (tree w) q pid"
    "install U h pid archive digest root w = (res, w')"
  shows "below_only q (tree w) (tree w')"
  using install_inside [OF assms] assms(4)
  by (cases "archive = []") (simp_all add: inside_def install_def)

text \<open>A key made of an ASCII digest is what reading the marker back gives.\<close>

lemma cache_key_ascii:
  assumes "ascii digest"
  shows "ascii (cache_key digest)" "valid_utf8 (cache_key digest)" "trim (cache_key digest) = cache_key digest"
proof -
  have t: "trim digest = strip_both is_space_char digest" using assms by (rule trim_ascii)
  have sub: "set (strip_both is_space_char digest) \<subseteq> set digest"
    by (auto simp: strip_both_def dest!: set_dropWhileD)
  have v: "ascii (VERSION @ ''-'')" by (simp add: VERSION_def is_ascii_def)
  then show a: "ascii (cache_key digest)"
    using assms sub by (auto simp: cache_key_def t ascii_def list_all_iff)
  then show "valid_utf8 (cache_key digest)" by (rule valid_utf8_ascii)
  have "\<not> is_space_char (last (strip_both is_space_char digest))" if "strip_both is_space_char digest \<noteq> []"
    using that hd_dropWhile [of is_space_char "rev (dropWhile is_space_char digest)"]
    by (simp add: strip_both_def last_rev)
  moreover have "\<not> is_space_char (hd VERSION)" "\<not> is_space_char (CHR ''-'')" "VERSION \<noteq> []"
    by (simp_all add: VERSION_def is_space_char_def is_whitespace_def)
  ultimately have "strip_both is_space_char (cache_key digest) = cache_key digest"
    by (intro strip_both_id) (auto simp: cache_key_def t)
  then show "trim (cache_key digest) = cache_key digest" using trim_ascii [OF a] by simp
qed

lemma clean_worked:
  assumes "clean (tree w) q pid" "worked q (staging_name pid) w w2"
  shows "direct (tree w2) q" "no_link (tree w2) (q @ [VERSION])" "no_link (tree w2) (q @ [VERSION, MARKER])"
    "lookup (tree w2) (q @ VERSION # s) = lookup (tree w) (q @ VERSION # s)"
  using assms worked_beside [OF assms(2), of VERSION] by (simp_all add: clean_def no_link_def worked.sound_after)

lemma marker_of_version:
  assumes "reaches root q" "direct (tree w) q" "lookup (tree w) (q @ [VERSION, MARKER]) = Some (File m key)"
    "valid_utf8 key" "trim key = key"
  shows "marker_recorded w (join root VERSION) key"
proof -
  have "dir_at (tree w) (q @ [VERSION])"
    using assms(3) lookup_no_dir [of "tree w" "q @ [VERSION]" MARKER] by auto
  then have "no_link (tree w) (q @ [VERSION])" "no_link (tree w) (q @ [VERSION, MARKER])"
    using assms(3) by (auto simp: no_link_def dir_at_lookup)
  then show ?thesis using marker_recorded_direct [OF assms(1,2)] assms(3-5) by simp
qed

text \<open>Work at a staging directory leaves the marker of the version readable as it was.\<close>

lemma marker_recorded_worked:
  assumes "reaches root q" "clean (tree w) q pid" "worked q (staging_name pid) w w1" "worked q (staging_name pid) w w2"
  shows "marker_recorded w1 (join root VERSION) key \<longleftrightarrow> marker_recorded w2 (join root VERSION) key"
proof -
  note c1 = clean_worked [OF assms(2,3)] and c2 = clean_worked [OF assms(2,4)]
  show ?thesis
    using marker_recorded_direct [OF assms(1) c1(1-3)] marker_recorded_direct [OF assms(1) c2(1-3)]
      c1(4) [of "[MARKER]"] c2(4) [of "[MARKER]"] by simp
qed

lemma remove_staging_worked:
  assumes "reaches root q" "worked q (staging_name pid) w w1"
  shows "worked q (staging_name pid) w (snd (remove_dir_all (join root (staging_name pid)) w1))"
proof -
  have d: "direct (tree w1) q" using worked.sound_after [OF assms(2)] .
  have "touched q (staging_name pid) w1 (snd (remove_dir_all (join root (staging_name pid)) w1))"
    using remove_dir_all_direct(1) [OF _ reaches_join [OF assms(1)] d] by (metis plain_staging_name prod.collapse)
  from worked.trans [OF assms(2) touched_worked [OF this d]] show ?thesis .
qed

lemma install_marked:
  assumes "unpack_laws U archive" "reaches root q" "clean (tree w) q pid" "ascii digest"
    "install U h pid archive digest root w = (Inr dir, w')"
  shows "dir = join root VERSION \<and> marker_recorded w' dir (cache_key digest)"
proof -
  have "archive \<noteq> []" using assms(5) by (auto simp: install_def)
  from this assms(5) show ?thesis
  proof (cases rule: install_outcomes)
    case hit
    then have "marker_recorded w (join root VERSION) (cache_key digest)" using already_installed_recorded by blast
    then show ?thesis
      using hit already_installed_same [OF hit(1)] by (simp add: marker_recorded_def same_files_def)
  next
    case (raced w1 w2 w3)
    note w3 = second_check(1) [OF raced(1-3) assms(1-3)]
    have "marker_recorded w3 (join root VERSION) (cache_key digest)"
      using already_installed_recorded [OF raced(3)] already_installed_same [OF raced(3)]
      by (simp add: marker_recorded_def same_files_def)
    with marker_recorded_worked [OF assms(2,3) w3 remove_staging_worked [OF assms(2) w3]] raced(4,5)
    show ?thesis by simp
  next
    case (moved w1 w2 w3 w4 w5)
    obtain m where m: "lookup (tree w2) (q @ [staging_name pid, MARKER]) = Some (File m (cache_key digest))"
      using staged_effect(3) [OF moved(1,2) assms(1-3)] by blast
    note eff = moved_effect [OF moved(1-5) assms(1-3)]
    have "direct (tree w') q" using eff(1) moved(7) by (simp add: inside_def)
    moreover have "lookup (tree w') (q @ [VERSION, MARKER]) = Some (File m (cache_key digest))"
      using eff(2) [of "[MARKER]"] m moved(7) by simp
    ultimately show ?thesis
      using marker_of_version [OF assms(2)] cache_key_ascii(2,3) [OF assms(4)] moved(6) by simp
  qed auto
qed

text \<open>C13. Whatever fails on the way, a run that returns a directory returns the cache directory of this
  version, and its marker then names the embedded archive: what the next run would take for
  installed is what this one was asked to install.\<close>
theorem install_ok_marked:
  assumes "unpack_laws U archive" "reaches root q" "clean (tree w) q pid" "ascii digest"
    "install U h pid archive digest root w = (Inr dir, w')"
  shows "dir = join root VERSION \<and> marker_recorded w' dir (cache_key digest)"
  using assms by (rule install_marked)

subsection \<open>Runs without faults\<close>

lemma no_faults_check_rootfs: "check_rootfs config w = (res, w') \<Longrightarrow> no_faults w \<Longrightarrow> no_faults w'"
  by (auto simp: check_rootfs_def Let_def split: prod.splits bool.splits sum.splits if_splits
      dest: no_faults_queries no_faults_metadata)

lemma no_faults_already_installed:
  assumes "already_installed h dir key w = (b, w')" "no_faults w"
  shows "no_faults w'"
proof -
  have "no_faults w1" if "marker_matches dir key w = (b1, w1)" for b1 w1
    using that assms(2) by (auto simp: marker_matches_def split: prod.splits sum.splits
        dest: no_faults_read_to_string)
  with assms(1) show ?thesis
    by (auto simp: already_installed_def split: prod.splits bool.splits sum.splits
        dest: no_faults_check_rootfs)
qed

text \<open>Clearing a directory away, or what is not there.\<close>

lemma remove_cleans:
  assumes "no_faults w" "reaches p (q @ [n])" "direct (tree w) (q @ [n])"
  shows "lookup (tree (snd (remove_dir_all p w))) (q @ [n]) = None"
    "worked q n w (snd (remove_dir_all p w))"
proof -
  have d: "direct (tree w) q" using assms(3) by (simp add: direct_snoc)
  obtain res w' where rm: "remove_dir_all p w = (res, w')" by fastforce
  then show "worked q n w (snd (remove_dir_all p w))"
    using touched_worked [OF remove_dir_all_direct(1) [OF rm assms(2) d] d] by simp
  show "lookup (tree (snd (remove_dir_all p w))) (q @ [n]) = None"
  proof (cases "lookup (tree w) (q @ [n])")
    case None
    have "resolve_parent w p = Ok (q, n) \<or> (\<exists>e. resolve_parent w p = Err e)"
      using resolve_parent_direct [OF assms(2) d] by (cases "resolve_parent w p") auto
    with None rm have "tree w' = tree w" by (auto simp: remove_dir_all_def)
    with None rm show ?thesis by simp
  next
    case (Some m)
    then have "dir_at (tree w) q" using lookup_no_dir [of "tree w" q n] by auto
    moreover have "\<not> is_file_node m" using Some direct_lookup [OF assms(3)] by (cases m) auto
    ultimately obtain w'' where "remove_dir_all p w = (Ok (), w'')"
      using remove_dir_all_works [OF assms(1,2)] Some by blast
    with rm remove_dir_all_direct(2) [OF rm assms(2) d] show ?thesis by simp
  qed
qed

lemma staged_no_faults:
  assumes "already_installed h dir key w = (b, w1)" "stage U archive key (join root (staging_name pid)) w1 = (res, w2)"
    and laws: "unpack_laws U archive" and r: "reaches root q" and c: "clean (tree w) q pid"
    and nf: "no_faults w" "\<not> file_at (tree w) (q @ [staging_name pid])"
  shows "no_faults w2" "direct (tree w2) (q @ [staging_name pid])"
proof -
  have s: "same_files w w1" using already_installed_same [OF assms(1)] .
  then have t: "tree w1 = tree w" by (simp add: same_files_def)
  have nf1: "no_faults w1" using no_faults_already_installed [OF assms(1) nf(1)] .
  have d: "direct (tree w) q" "no_link (tree w) (q @ [staging_name pid])"
    "no_link (tree w) (q @ [staging_name pid, MARKER])"
    using c by (simp_all add: clean_def)
  note eff = stage_effect [OF assms(2) laws reaches_join [OF r plain_staging_name]]
  show "no_faults w2" using eff(3) d t nf1 by simp
  show "direct (tree w2) (q @ [staging_name pid])" using eff(5) d t nf1 nf(2) by simp
qed

text \<open>Without faults what was staged can be moved once the old version is cleared away.\<close>

lemma staged_moves:
  assumes "already_installed h dir key w = (b, w1)" "stage U archive key (join root (staging_name pid)) w1 = (Inr (), w2)"
    "already_installed h dir key w2 = (b3, w3)" "stale_removed (join root VERSION) w3 (Inr ()) w4"
    and laws: "unpack_laws U archive" "reaches root q" "clean (tree w) q pid"
    and nf: "no_faults w" "\<not> file_at (tree w) (q @ [staging_name pid])"
  shows "fst (rename (join root (staging_name pid)) (join root VERSION) w4) = Ok ()"
proof -
  have rd: "reaches (join root VERSION) (q @ [VERSION])"
    and rs: "reaches (join root (staging_name pid)) (q @ [staging_name pid])"
    using reaches_join [OF laws(2)] by simp_all
  note c = clean_worked [OF laws(3) second_check(1) [OF assms(1-3) laws]]
  have nf3: "no_faults w3"
    using no_faults_already_installed [OF assms(3) staged_no_faults(1) [OF assms(1,2) laws nf]] .
  have gone: "lookup (tree w4) (q @ [VERSION]) = None"
    using stale_removed_no_faults(1) [OF assms(4) rd c(1,2) nf3] by simp
  obtain m where "lookup (tree w4) ((q @ [staging_name pid]) @ [MARKER]) = Some (File m key)"
    using version_cleared(3) [OF assms(1-4) laws] by auto
  then obtain n where n: "lookup (tree w4) (q @ [staging_name pid]) = Some n"
    using lookup_below_none [of "tree w4" "q @ [staging_name pid]" "[MARKER]"]
    by (cases "lookup (tree w4) (q @ [staging_name pid])") auto
  then have "dir_at (tree w4) q" using lookup_no_dir [of "tree w4" q "staging_name pid"] by auto
  then show ?thesis
    using rename_works [OF stale_removed_direct(2) [OF assms(4) rd c(1) nf3] rs rd _ _ n gone] by simp
qed

text \<open>C15. Without I/O faults a run that fails - on a corrupt archive, say - leaves no staging directory
  behind and does not touch the version that was installed before.\<close>
theorem install_failure_leaves_nothing:
  assumes "unpack_laws U archive" "reaches root q" "clean (tree w) q pid" "no_faults w"
    "\<not> file_at (tree w) (q @ [staging_name pid])" "archive \<noteq> []"
    "install U h pid archive digest root w = (Inl e, w')"
  shows "lookup (tree w') (q @ [staging_name pid]) = None \<and>
    lookup (tree w') (q @ VERSION # s) = lookup (tree w) (q @ VERSION # s)"
proof -
  let ?n = "staging_name pid" and ?st = "join root (staging_name pid)"
  have rd: "reaches (join root VERSION) (q @ [VERSION])" and rs: "reaches ?st (q @ [?n])"
    using reaches_join [OF assms(2)] by simp_all
  note nf = staged_no_faults [OF _ _ assms(1-5)]
  have finish: ?thesis if "worked q ?n w w2" "no_faults w2" "direct (tree w2) (q @ [?n])"
    "w' = snd (remove_dir_all ?st w2)" for w2
    using remove_cleans [OF that(2) rs that(3)] that(1,4) worked.trans worked_beside
    by (metis staging_not_version(2))
  from assms(6,7) show ?thesis
  proof (cases rule: install_outcomes)
    case (not_staged w1 w2 e)
    show ?thesis
      by (rule finish [OF staged_effect(2) [OF not_staged(1,2) assms(1-3)] nf [OF not_staged(1,2)] not_staged(4)])
  next
    case (stale w1 w2 w3 w4 e)
    note w3 = second_check [OF stale(1-3) assms(1-3)]
    have nf3: "no_faults w3" using no_faults_already_installed [OF stale(3) nf(1) [OF stale(1,2)]] .
    note c = clean_worked [OF assms(3) w3(1)]
    have "tree w4 = tree w3" using stale_removed_no_faults(2) [OF stale(4) rd c(1,2) nf3] by simp
    moreover have "no_faults w4" "cwd w4 = cwd w3"
      using stale_removed_direct [OF stale(4) rd c(1)] nf3 by (simp_all add: worked_def)
    ultimately have g: "worked q ?n w w4" "no_faults w4" "direct (tree w4) (q @ [?n])"
      using w3 nf(2) [OF stale(1,2)] by (simp_all add: worked_def same_files_def)
    show ?thesis by (rule finish [OF g stale(6)])
  next
    case (not_moved w1 w2 w3 w4 w5 e)
    with staged_moves [OF not_moved(1-4) assms(1-5)] show ?thesis by simp
  qed auto
qed

text \<open>C14. Without I/O faults a run that succeeds leaves the installed version either as it was or
  replaced as a whole: everything in it but the marker is what unpacking the archive into an
  empty directory gave, nothing of the old tree is merged in.\<close>
theorem install_keeps_or_replaces:
  assumes "unpack_laws U archive" "reaches root q" "clean (tree w) q pid" "no_faults w"
    "install U h pid archive digest root w = (Inr dir, w')"
  shows "(\<forall>s. lookup (tree w') (q @ VERSION # s) = lookup (tree w) (q @ VERSION # s)) \<or>
    (\<exists>w1 w2. lookup (tree w1) (q @ [staging_name pid]) = Some (Dir []) \<and>
       tar_unpack U archive (join root (staging_name pid)) w1 = (Ok (), w2) \<and>
       (\<forall>x s. x \<noteq> MARKER \<longrightarrow>
          lookup (tree w') (q @ VERSION # x # s) = lookup (tree w2) (q @ staging_name pid # x # s)))"
proof -
  let ?n = "staging_name pid"
  have "archive \<noteq> []" using assms(5) by (auto simp: install_def)
  from this assms(5) show ?thesis
  proof (cases rule: install_outcomes)
    case hit
    then show ?thesis using already_installed_same [OF hit(1)] by (simp add: same_files_def)
  next
    case (raced w1 w2 w3)
    have "worked q ?n w w'"
      using remove_staging_worked [OF assms(2) second_check(1) [OF raced(1-3) assms(1-3)]] raced(5) by simp
    then show ?thesis using worked_beside by (metis staging_not_version(2))
  next
    case (moved w1 w2 w3 w4 w5)
    have d: "direct (tree w) q" "no_link (tree w) (q @ [?n])" "no_link (tree w) (q @ [?n, MARKER])"
      using assms(3) by (simp_all add: clean_def)
    have same: "tree w1 = tree w" using staged_effect(1) [OF moved(1,2) assms(1-3)] by (simp add: same_files_def)
    have nf1: "no_faults w1" using no_faults_already_installed [OF moved(1) assms(4)] .
    have rs: "reaches (join root ?n) (q @ [?n])" using reaches_join [OF assms(2)] by simp
    obtain u1 u2 where u: "lookup (tree u1) (q @ [?n]) = Some (Dir [])" "tar_unpack U archive (join root ?n) u1 = (Ok (), u2)"
      and eq: "\<forall>x s. x \<noteq> MARKER \<longrightarrow> lookup (tree w2) (q @ ?n # x # s) = lookup (tree u2) (q @ ?n # x # s)"
      using stage_effect(4) [OF moved(2) assms(1) rs] d same nf1 by auto
    have "lookup (tree w') (q @ VERSION # t) = lookup (tree w2) (q @ ?n # t)" for t
      using moved_effect(2) [OF moved(1-5) assms(1-3)] moved(7) by simp
    with u eq show ?thesis by auto
  qed auto
qed

text \<open>A cache hit costs nothing: where the marker names the archive and the tree still passes as a
  rootfs, \<open>install\<close> returns it and writes nothing; a build without an archive says so and writes
  nothing either.\<close>
lemma install_hit_or_empty:
  "install U h pid [] digest root w = (Err NOT_EMBEDDED, w) \<and>
   (archive \<noteq> [] \<and> no_faults w \<and> marker_recorded w (join root VERSION) (cache_key digest) \<and>
      usable_rootfs w (join root VERSION) \<longrightarrow>
    fst (install U h pid archive digest root w) = Ok (join root VERSION) \<and>
    tree (snd (install U h pid archive digest root w)) = tree w)"
proof -
  let ?dir = "join root VERSION" and ?key = "cache_key digest"
  have "fst (already_installed h ?dir ?key w)" if nf: "no_faults w" and m: "marker_recorded w ?dir ?key"
    and u: "usable_rootfs w ?dir"
  proof -
    obtain f w1 where w1: "next_fault w = (None, w1)" "no_faults w1" "tree w1 = tree w" "cwd w1 = cwd w"
      using no_faultsD [OF nf] by blast
    then have mm: "marker_matches ?dir ?key w = (True, w1)"
      using m by (auto simp: marker_recorded_def marker_matches_def read_to_string_def)
    have "usable_rootfs w1 (rootfs (vm_config_new h ?dir))"
      using u w1 by (simp add: usable_rootfs_def vm_config_new_def)
    then have "is_ok (fst (check_rootfs (vm_config_new h ?dir) w1))"
      using check_rootfs_accepts [OF w1(2)] by blast
    with mm show ?thesis by (auto simp: already_installed_def is_ok_iff split: prod.split)
  qed
  then show ?thesis
    using already_installed_same [of h ?dir ?key w]
    by (cases "already_installed h ?dir ?key w") (auto simp: install_def Let_def same_files_def)
qed

end
