(* ===== verification/Cli.thy ===== *)
theory Cli
  imports Krun Containerfile ContainerBuilder VmRootfs
begin

text \<open>
  \<open>src/main.rs\<close>: the command line, the choice of the backend and the run through it. What
  \<open>clap\<close> parsed is the record \<open>cli\<close>; everything else the program asks of its host, and the
  crates it hands work to, is the record \<open>host\<close>. Text printed is part of the result; log
  lines are left out.
\<close>

subsection \<open>Runtimes and backends\<close>

datatype runtime = RuntimePodman | RuntimeDocker | RuntimeMacOsContainer | RuntimeVm

definition runtime_cli :: "runtime \<Rightarrow> container_cli option" where
  "runtime_cli r =
     (case r of
        RuntimePodman \<Rightarrow> Some Podman
      | RuntimeDocker \<Rightarrow> Some Docker
      | RuntimeMacOsContainer \<Rightarrow> Some MacOsContainer
      | RuntimeVm \<Rightarrow> None)"

datatype backend =
    BackendCli container_cli runner
  | BackendVm vm_config vm_runner string

datatype selected =
    SelectedCli container_cli
  | SelectedVm vm_config string

record cli =
  cli_tag :: string
  cli_runtime :: runtime
  cli_from :: string
  cli_verbose :: u8
  cli_copy_containerfile :: bool
  cli_vm_rootfs :: "string option"
  cli_vm_output :: "string option"
  cli_vm_cpus :: "u8 option"
  cli_vm_memory :: "u32 option"
  cli_vm_dns :: "ip_addr list"

text \<open>What the value parsers named in the attributes of \<open>Cli\<close> let through.\<close>

definition clap_accepts :: "cli \<Rightarrow> bool" where
  "clap_accepts c =
     (is_ok (parse_image_reference (cli_from c)) \<and>
      pred_option (\<lambda>n. 1 \<le> n) (cli_vm_cpus c) \<and> pred_option (\<lambda>n. 1 \<le> n) (cli_vm_memory c))"

text \<open>The filters the program uses, ordered as the \<open>log\<close> crate orders them.\<close>

datatype level_filter = Warn | Info | Debug

fun verbosity :: "level_filter \<Rightarrow> nat" where
  "verbosity Warn = 0"
| "verbosity Info = 1"
| "verbosity Debug = 2"

instantiation level_filter :: linorder
begin

definition less_eq_level_filter :: "level_filter \<Rightarrow> level_filter \<Rightarrow> bool" where
  "less_eq_level_filter l l' = (verbosity l \<le> verbosity l')"

definition less_level_filter :: "level_filter \<Rightarrow> level_filter \<Rightarrow> bool" where
  "less_level_filter l l' = (verbosity l < verbosity l')"

instance
proof
  have eq: "verbosity l = verbosity l' \<Longrightarrow> l = l'" for l l' by (cases l; cases l') simp_all
  show "l \<le> l' \<Longrightarrow> l' \<le> l \<Longrightarrow> l = l'" for l l' :: level_filter
    using eq by (simp add: less_eq_level_filter_def)
qed (auto simp: less_eq_level_filter_def less_level_filter_def)

end

definition log_level :: "u8 \<Rightarrow> level_filter" where
  "log_level verbose = (if verbose = 0 then Warn else if verbose = 1 then Info else Debug)"

text \<open>Another \<open>-v\<close> never hides what was shown before.\<close>

lemma log_level_mono: "v \<le> v' \<Longrightarrow> log_level v \<le> log_level v'"
proof -
  have "verbosity (log_level x) = min 2 (unat x)" for x
  proof -
    have "x = 0 \<longleftrightarrow> unat x = 0" "x = 1 \<longleftrightarrow> unat x = 1"
      by (simp_all add: word_eq_iff_unsigned [where 'a = nat])
    then show ?thesis by (simp add: log_level_def)
  qed
  then show "v \<le> v' \<Longrightarrow> log_level v \<le> log_level v'"
    by (simp add: less_eq_level_filter_def word_le_nat_alt)
qed

record host =
  h_which :: "string \<Rightarrow> bool"
  h_target :: target
  h_dns :: host_dns
  h_pid :: nat
  h_archive :: string
  h_digest :: string
  h_data_dir :: "string option"
  h_unpackers :: unpackers
  h_tempfiles :: tempfiles
  h_command :: runner \<comment> \<open>\<open>Command::status\<close>\<close>
  h_boot :: "vm_build \<Rightarrow> (world, vm_build_error, unit) action" \<comment> \<open>\<open>krun::run\<close>\<close>
  h_printable :: "nat \<Rightarrow> bool"

text \<open>The runner without libkrun never runs into its panic (\<open>run_without_libkrun\<close>).\<close>

definition krun_runner :: "host \<Rightarrow> vm_runner" where
  "krun_runner h =
     \<lparr>runner_run = (\<lambda>b w.
        if libkrun_available (h_target h) then h_boot h b w
        else (case run_without_libkrun (h_target h) of Some r \<Rightarrow> (r, w) | None \<Rightarrow> h_boot h b w)),
      runner_check_supported = krun_check_supported (h_target h)\<rparr>"

subsection \<open>Checking and assembling the configuration\<close>

definition vm_flags :: "cli \<Rightarrow> (string \<times> bool) list" where
  "vm_flags c =
     [(''--vm-rootfs'', cli_vm_rootfs c \<noteq> None), (''--vm-output'', cli_vm_output c \<noteq> None),
      (''--vm-cpus'', cli_vm_cpus c \<noteq> None), (''--vm-memory'', cli_vm_memory c \<noteq> None),
      (''--vm-dns'', cli_vm_dns c \<noteq> [])]"

definition check_vm_flags :: "cli \<Rightarrow> (string, unit) result" where
  "check_vm_flags c =
     (if cli_runtime c = RuntimeVm then Ok ()
      else
        (case find (\<lambda>(flag, present). present) (vm_flags c) of
           Some (flag, _) \<Rightarrow> Err (flag @ '' is only supported with --runtime vm'')
         | None \<Rightarrow> Ok ()))"

definition vm_nameservers :: "host_dns \<Rightarrow> ip_addr list \<Rightarrow> (string, ip_addr list) result" where
  "vm_nameservers dh dns =
     (if dns = [] then Ok (default_nameservers dh)
      else
        (case find (\<lambda>addr. \<not> is_reachable_from_vm addr) dns of
           Some addr \<Rightarrow>
             Err (''--vm-dns '' @ ip_to_string addr
               @ '' cannot be reached from inside the VM: a loopback or link-local address means the VM itself, not the host'')
         | None \<Rightarrow> Ok dns))"

definition assemble_vm_config ::
  "host \<Rightarrow> string option \<Rightarrow> u8 option \<Rightarrow> u32 option \<Rightarrow> ip_addr list \<Rightarrow> (world, string, vm_config) action" where
  "assemble_vm_config h dir vcpus memory dns w =
     (case vm_nameservers (h_dns h) dns of
        Inl e \<Rightarrow> (Err e, w)
      | Inr ns \<Rightarrow>
          (case (case dir of
                   Some d \<Rightarrow> (Ok d, w)
                 | None \<Rightarrow> ensure_extracted (h_unpackers h) (h_dns h) (h_pid h) (h_archive h)
                     (h_digest h) (h_data_dir h) w) of
             (Inl e, w1) \<Rightarrow> (Err e, w1)
           | (Inr d, w1) \<Rightarrow>
               (Ok \<lparr>rootfs = d, cpus = unwrap_or DEFAULT_CPUS vcpus,
                    memory_mib = unwrap_or DEFAULT_MEMORY_MIB memory, nameservers = ns\<rparr>, w1)))"

definition tag_char :: "utf8_piece \<Rightarrow> char" where
  "tag_char p =
     (let c = piece_char p in
      if is_ascii_alphanumeric c \<or> c = 46 \<or> c = 45 \<or> c = 95 then char_of c else CHR ''-'')"

definition vm_output_path :: "string \<Rightarrow> string" where
  "vm_output_path tag = map tag_char (decode tag) @ ''.tar''"

subsection \<open>Selecting the runtime\<close>

definition select_vm :: "host \<Rightarrow> cli \<Rightarrow> (world, string, selected) action" where
  "select_vm h c w =
     (case assemble_vm_config h (cli_vm_rootfs c) (cli_vm_cpus c) (cli_vm_memory c) (cli_vm_dns c) w of
        (Inl e, w1) \<Rightarrow> (Err e, w1)
      | (Inr config, w1) \<Rightarrow>
          (case check_rootfs config w1 of
             (Inl e, w2) \<Rightarrow> (Err (vm_error_display e), w2)
           | (Inr _, w2) \<Rightarrow>
               (Ok (SelectedVm config
                 (case cli_vm_output c of Some p \<Rightarrow> p | None \<Rightarrow> vm_output_path (cli_tag c))), w2)))"

definition select_runtime :: "host \<Rightarrow> cli \<Rightarrow> (world, string, selected) action" where
  "select_runtime h c w =
     (case runtime_cli (cli_runtime c) of
        Some cc \<Rightarrow>
          (case check_in_path (h_which h) cc of
             Inl e \<Rightarrow> (Err (not_found_display e), w)
           | Inr _ \<Rightarrow> (Ok (SelectedCli cc), w))
      | None \<Rightarrow>
          (case runner_check_supported (krun_runner h) of
             Inl e \<Rightarrow> (Err (vm_error_display e), w)
           | Inr _ \<Rightarrow> select_vm h c w))"

definition backend_for :: "host \<Rightarrow> selected \<Rightarrow> backend" where
  "backend_for h s =
     (case s of
        SelectedCli cc \<Rightarrow> BackendCli cc (h_command h)
      | SelectedVm config output \<Rightarrow> BackendVm config (krun_runner h) output)"

definition build_summary :: "selected \<Rightarrow> string option" where
  "build_summary s =
     (case s of
        SelectedCli _ \<Rightarrow> None
      | SelectedVm _ output \<Rightarrow> Some (''Wrote '' @ to_string_lossy output))"

subsection \<open>Running the build\<close>

datatype run_error =
    RunIo io_error
  | RunContainerfile containerfile_error
  | RunBuild build_error
  | RunVm vm_build_error

definition run_error_display :: "(nat \<Rightarrow> bool) \<Rightarrow> run_error \<Rightarrow> string" where
  "run_error_display printable e =
     (case e of
        RunIo err \<Rightarrow> io_display err
      | RunContainerfile err \<Rightarrow> containerfile_error_display printable err
      | RunBuild err \<Rightarrow> build_error_display err
      | RunVm err \<Rightarrow> vm_error_display err)"

definition BUILD_CONTAINERFILE :: string where
  "BUILD_CONTAINERFILE = ''build-containerfile''"

definition run_backend ::
  "tempfiles \<Rightarrow> string \<Rightarrow> string \<Rightarrow> string \<Rightarrow> backend \<Rightarrow> (world, run_error, unit) action" where
  "run_backend T containerfile tag dir b w =
     (case b of
        BackendCli cc r \<Rightarrow>
          (case container_build T containerfile tag cc r dir w of (res, w1) \<Rightarrow> (map_err RunBuild res, w1))
      | BackendVm config vr output \<Rightarrow>
          (case VmImageBuilder.build containerfile tag config vr dir output w of
             (res, w1) \<Rightarrow> (map_err RunVm res, w1)))"

text \<open>The context directory is dropped at every way out of \<open>run\<close>.\<close>

definition run ::
  "tempfiles \<Rightarrow> string \<Rightarrow> string \<Rightarrow> bool \<Rightarrow> backend \<Rightarrow> (world, run_error, unit) action" where
  "run T tag from copy b w =
     (case new_temp_dir T w of
        (Inl e, w1) \<Rightarrow> (Err (RunIo e), w1)
      | (Inr tmp, w1) \<Rightarrow>
          (case generate from copy of
             Inl e \<Rightarrow> (Err (RunContainerfile e), drop_temp T tmp w1)
           | Inr output \<Rightarrow>
               (case (if copy then fs_write (join (fst tmp) BUILD_CONTAINERFILE) output w1 else (Ok (), w1)) of
                  (Inl e, w2) \<Rightarrow> (Err (RunIo e), drop_temp T tmp w2)
                | (Inr _, w2) \<Rightarrow>
                    (case run_backend T output tag (fst tmp) b w2 of
                       (res, w3) \<Rightarrow> (res, drop_temp T tmp w3)))))"

record ending =
  exit_code :: int
  stdout :: "string list"
  stderr :: "string list"

definition failed_with :: "string \<Rightarrow> ending" where
  "failed_with e = \<lparr>exit_code = 1, stdout = [], stderr = [''Error: '' @ e]\<rparr>"

definition main_program :: "host \<Rightarrow> cli \<Rightarrow> world \<Rightarrow> ending \<times> world" where
  "main_program h c w =
     (case check_vm_flags c of
        Inl e \<Rightarrow> (failed_with e, w)
      | Inr _ \<Rightarrow>
          (case select_runtime h c w of
             (Inl e, w1) \<Rightarrow> (failed_with e, w1)
           | (Inr s, w1) \<Rightarrow>
               (case run (h_tempfiles h) (cli_tag c) (cli_from c) (cli_copy_containerfile c) (backend_for h s) w1 of
                  (Inl e, w2) \<Rightarrow> (failed_with (run_error_display (h_printable h) e), w2)
                | (Inr _, w2) \<Rightarrow>
                    (\<lparr>exit_code = 0,
                      stdout = (case build_summary s of None \<Rightarrow> [] | Some line \<Rightarrow> [line]),
                      stderr = []\<rparr>, w2))))"

subsection \<open>The flags\<close>

lemma check_vm_flags_Err:
  "check_vm_flags c = Err e \<longleftrightarrow> cli_runtime c \<noteq> RuntimeVm \<and>
     (\<exists>flag present. find (\<lambda>(flag, present). present) (vm_flags c) = Some (flag, present) \<and>
        e = flag @ '' is only supported with --runtime vm'')"
  by (auto simp: check_vm_flags_def split: option.splits)

text \<open>A flag of the VM backend given with another runtime ends the program with code 1 before
  anything is done; the message names a flag that was given.\<close>
lemma stray_vm_flag_stops:
  assumes "cli_runtime c \<noteq> RuntimeVm" "(flag, True) \<in> set (vm_flags c)"
  shows "\<exists>given. (given, True) \<in> set (vm_flags c) \<and>
    main_program h c w =
      (\<lparr>exit_code = 1, stdout = [], stderr = [''Error: '' @ given @ '' is only supported with --runtime vm'']\<rparr>, w)"
proof -
  have "find (\<lambda>(flag, present). present) (vm_flags c) \<noteq> None"
    using assms(2) by (auto simp: find_None_iff)
  then obtain given present where g: "find (\<lambda>(flag, present). present) (vm_flags c) = Some (given, present)"
    by auto
  then have "(given, True) \<in> set (vm_flags c)" by (auto simp: find_Some_iff in_set_conv_nth)
  moreover have "check_vm_flags c = Err (given @ '' is only supported with --runtime vm'')"
    using g assms(1) by (simp only: check_vm_flags_Err) blast
  ultimately show ?thesis by (auto simp: main_program_def failed_with_def)
qed

subsection \<open>The default output\<close>

definition safe_char :: "char \<Rightarrow> bool" where
  "safe_char c = (is_ascii_alphanumeric (byte c) \<or> c \<in> {CHR ''.'', CHR ''-'', CHR ''_''})"

lemma tag_char_safe: "safe_char (tag_char p)"
proof -
  have "byte (char_of n) = n" if "is_ascii_alphanumeric n" for n :: nat
    using that by (auto simp: is_ascii_alphanumeric_def)
  moreover have "char_of (46 :: nat) = CHR ''.''" "char_of (45 :: nat) = CHR ''-''" "char_of (95 :: nat) = CHR ''_''"
    by (simp_all add: char_of_eq_iff)
  ultimately show ?thesis
    by (simp add: tag_char_def safe_char_def Let_def)
qed

lemma safe_not_sep: "safe_char c \<Longrightarrow> \<not> is_sep c"
  by (auto simp: safe_char_def is_sep_def is_ascii_alphanumeric_def)

lemma vm_output_path_plain: "plain_name (vm_output_path tag)"
proof -
  have "vm_output_path tag \<noteq> s" if "length s < 4" for s
    using that by (auto simp: vm_output_path_def)
  moreover have "list_all (\<lambda>c. \<not> is_sep c) (vm_output_path tag)"
    using tag_char_safe safe_not_sep by (auto simp: vm_output_path_def list_all_iff is_sep_def)
  ultimately show ?thesis
    by (simp add: plain_name_def)
qed

text \<open>The default output of a VM build stays in the working directory whatever the tag is: it is
  one file name of letters, digits, dots, dashes and underscores, and its directory is \<open>.\<close>.\<close>
lemma vm_output_path_local:
  "file_name (vm_output_path tag) = Some (vm_output_path tag) \<and> output_parent (vm_output_path tag) = ''.'' \<and>
   list_all safe_char (vm_output_path tag)"
  using vm_output_path_plain [of tag] tag_char_safe
  by (auto simp: file_name_name parent_name output_parent_def vm_output_path_def list_all_iff)
    (simp_all add: safe_char_def is_ascii_alphanumeric_def)

subsection \<open>What is selected\<close>

lemma vm_nameservers_Ok:
  assumes "vm_nameservers dh dns = Ok ns"
  shows "ns \<noteq> [] \<and> list_all is_reachable_from_vm ns \<and> (dns \<noteq> [] \<longrightarrow> ns = dns)"
proof (cases "dns = []")
  case True
  with assms default_usable [of dh] show ?thesis
    by (auto simp: vm_nameservers_def usable_nameservers_def)
next
  case False
  with assms have "find (\<lambda>addr. \<not> is_reachable_from_vm addr) dns = None" "ns = dns"
    by (auto simp: vm_nameservers_def split: option.splits)
  with False show ?thesis by (auto simp: find_None_iff list_all_iff)
qed

lemma assemble_vm_config_Ok:
  assumes "assemble_vm_config h dir vcpus memory dns w = (Inr config, w')"
  shows "vm_nameservers (h_dns h) dns = Ok (nameservers config) \<and>
    cpus config = unwrap_or DEFAULT_CPUS vcpus \<and> memory_mib config = unwrap_or DEFAULT_MEMORY_MIB memory \<and>
    (\<forall>d. dir = Some d \<longrightarrow> rootfs config = d \<and> w' = w)"
  using assms by (cases dir) (auto simp: assemble_vm_config_def split: sum.splits prod.splits)

lemma select_runtime_vm:
  assumes "cli_runtime c = RuntimeVm" "select_runtime h c w = (Inr s, w')"
  shows "\<exists>config outp. s = SelectedVm config outp \<and> libkrun_available (h_target h) \<and>
    (\<exists>w1. assemble_vm_config h (cli_vm_rootfs c) (cli_vm_cpus c) (cli_vm_memory c) (cli_vm_dns c) w = (Inr config, w1) \<and>
      check_rootfs config w1 = (Inr (), w')) \<and>
    outp = (case cli_vm_output c of Some p \<Rightarrow> p | None \<Rightarrow> vm_output_path (cli_tag c))"
  using assms
  by (auto simp: select_runtime_def runtime_cli_def krun_runner_def select_vm_def krun_check_supported_def
      split: sum.splits prod.splits if_splits)

text \<open>C37. A VM backend is only selected where a VM can run, and what is selected is usable: libkrun is
  available, there is at least one CPU and one MiB, at least one nameserver and each of them
  reachable from the VM, the ones given on the command line exactly, and the rootfs has passed
  its check.\<close>
theorem selected_vm_usable:
  assumes "clap_accepts c" "cli_runtime c = RuntimeVm" "select_runtime h c w = (Inr s, w')"
  shows "\<exists>config outp. s = SelectedVm config outp \<and> libkrun_available (h_target h) \<and>
    1 \<le> cpus config \<and> 1 \<le> memory_mib config \<and>
    nameservers config \<noteq> [] \<and> list_all is_reachable_from_vm (nameservers config) \<and>
    (cli_vm_dns c \<noteq> [] \<longrightarrow> nameservers config = cli_vm_dns c) \<and>
    (\<exists>w1. check_rootfs config w1 = (Ok (), w'))"
proof -
  obtain config outp w1 where s: "s = SelectedVm config outp" "libkrun_available (h_target h)"
    and a: "assemble_vm_config h (cli_vm_rootfs c) (cli_vm_cpus c) (cli_vm_memory c) (cli_vm_dns c) w = (Inr config, w1)"
    and k: "check_rootfs config w1 = (Inr (), w')"
    using select_runtime_vm [OF assms(2,3)] by blast
  note cfg = assemble_vm_config_Ok [OF a]
  have "1 \<le> cpus config"
    using cfg assms(1) by (cases "cli_vm_cpus c") (simp_all add: clap_accepts_def DEFAULT_CPUS_def word_le_nat_alt)
  moreover have "1 \<le> memory_mib config"
    using cfg assms(1) by (cases "cli_vm_memory c") (simp_all add: clap_accepts_def DEFAULT_MEMORY_MIB_def word_le_nat_alt)
  ultimately show ?thesis
    using s k vm_nameservers_Ok [OF conjunct1 [OF cfg]] by blast
qed

text \<open>C36. Nothing is unpacked for a VM that cannot be used: on a host without libkrun, or with a
  nameserver the VM cannot reach, the program ends with code 1 and has changed nothing.\<close>
theorem vm_refused_before_extraction:
  assumes "cli_runtime c = RuntimeVm"
    "\<not> libkrun_available (h_target h) \<or> \<not> list_all is_reachable_from_vm (cli_vm_dns c)"
  shows "exit_code (fst (main_program h c w)) = 1 \<and> snd (main_program h c w) = w"
proof -
  have "\<exists>e. select_runtime h c w = (Inl e, w)"
  proof (cases "libkrun_available (h_target h)")
    case False
    then show ?thesis
      using assms(1) by (simp add: select_runtime_def runtime_cli_def krun_runner_def krun_check_supported_def)
  next
    case True
    with assms(2) obtain a where "a \<in> set (cli_vm_dns c)" "\<not> is_reachable_from_vm a"
      by (auto simp: list_all_iff)
    then have "find (\<lambda>addr. \<not> is_reachable_from_vm addr) (cli_vm_dns c) \<noteq> None" "cli_vm_dns c \<noteq> []"
      by (auto simp: find_None_iff)
    then have "\<exists>e. vm_nameservers (h_dns h) (cli_vm_dns c) = Err e"
      by (auto simp: vm_nameservers_def)
    then show ?thesis
      using assms(1) True by (auto simp: select_runtime_def runtime_cli_def krun_runner_def
          krun_check_supported_def select_vm_def assemble_vm_config_def)
  qed
  moreover have "check_vm_flags c = Ok ()" using assms(1) by (simp add: check_vm_flags_def)
  ultimately show ?thesis by (auto simp: main_program_def failed_with_def)
qed

subsection \<open>The build context\<close>

lemma fs_write_new:
  assumes "fs_write (join p n) data w = (res, w')" "plain_name n" "leads_to w p d"
    "lookup (tree w) (d @ [n]) = None"
  shows "cwd w' = cwd w \<and> keeps {} (tree w) (tree w') \<and>
    (is_ok res \<longrightarrow> (\<exists>m. lookup (tree w') (d @ [n]) = Some (File m data)))"
proof -
  obtain r1 w1 where o: "open_truncate False (join p n) w = (r1, w1)" by fastforce
  obtain f wf where f: "next_fault w = (f, wf)" by fastforce
  then have wf: "tree wf = tree w" "leads_to wf p = leads_to w p"
    using next_faultD [OF f] by (simp_all add: leads_to_def fun_eq_iff)
  have "lookup (tree wf) (d' @ [n']) = None" if "resolve_parent wf (join p n) = Inr (d', n')" for d' n'
    using iffD1 [OF resolve_parent_join [OF assms(2)] that] assms(3,4) leads_to_det [of w p d d']
    by (simp add: wf)
  then have "open_truncate True (join p n) w = open_truncate False (join p n) w"
    by (cases f; cases "resolve_parent wf (join p n)") (simp_all add: open_truncate_def f split: prod.split)
  with o have "open_truncate True (join p n) w = (r1, w1)" by simp
  then have "(\<exists>e. r1 = Err e) \<and> same_files w w1 \<or>
    r1 = Ok (d @ [n]) \<and> cwd w1 = cwd w \<and> keeps {d @ [n]} (tree w) (tree w1) \<and>
       (\<exists>m. lookup (tree w1) (d @ [n]) = Some (File m []))"
    using open_nofollow_join [OF _ assms(2)] leads_to_det [OF assms(3)] by metis
  then show ?thesis
  proof (elim disjE conjE exE)
    fix m
    assume ok: "r1 = Ok (d @ [n])" "cwd w1 = cwd w" and k: "keeps {d @ [n]} (tree w) (tree w1)"
      and l: "lookup (tree w1) (d @ [n]) = Some (File m [])"
    have wr: "write_all (d @ [n]) data w1 = (res, w')" using assms(1) o ok by (simp add: fs_write_def)
    note written = write_all_cases [OF wr l]
    have "keeps {d @ [n]} (tree w) (tree w')" using k written keeps_trans by blast
    then have "keeps {} (tree w) (tree w')"
      using assms(4) unfolding keeps_def by (metis option.distinct(1) singletonD)
    with written ok show ?thesis by auto
  qed (use assms(1) o in \<open>auto simp: fs_write_def same_files_def\<close>)
qed


text \<open>What the backend finds: a directory of its own with, if it was asked for, a copy of the
  Containerfile, and nothing of what was there before changed.\<close>

definition context_ready ::
  "world \<Rightarrow> temporary \<Rightarrow> bool \<Rightarrow> string \<Rightarrow> world \<Rightarrow> bool" where
  "context_ready w ctx copy cf w' =
     (leads_to w' (fst ctx) (snd ctx) \<and> snd ctx \<noteq> [] \<and> lookup (tree w) (snd ctx) = None \<and>
      dir_at (tree w') (snd ctx) \<and>
      (copy \<longrightarrow> (\<exists>m. lookup (tree w') (snd ctx @ [BUILD_CONTAINERFILE]) = Some (File m cf))) \<and>
      keeps {} (tree w) (tree w') \<and> cwd w' = cwd w)"

lemma plain_BUILD_CONTAINERFILE [simp]: "plain_name BUILD_CONTAINERFILE"
  by code_simp

lemma keeps_dir_at: "keeps {} r r' \<Longrightarrow> dir_at r q \<Longrightarrow> dir_at r' q"
  by (meson keeps_extends extends_dir_at)

lemma run_steps:
  assumes "tempfile_laws T" "new_temp_dir T w = (Inr ctx, w1)" "generate from copy = Inr cf"
  shows "(\<exists>e w2. (\<forall>b. run T tag from copy b w = (Err (RunIo e), drop_temp T ctx w2)) \<and>
            keeps {} (tree w) (tree w2)) \<or>
    (\<exists>w2. context_ready w ctx copy cf w2 \<and>
       (\<forall>b. run T tag from copy b w =
          (case run_backend T cf tag (fst ctx) b w2 of (res, w3) \<Rightarrow> (res, drop_temp T ctx w3))))"
proof -
  obtain p q where ctx: "ctx = (p, q)" by fastforce
  note new = new_temp_dirD [OF assms(1) assms(2) [unfolded ctx]]
  have dir: "dir_at (tree w1) q" using new(4) by (simp add: dir_at_lookup)
  show ?thesis
  proof (cases copy)
    case False
    have "context_ready w ctx copy cf w1" using False new dir by (simp add: context_ready_def ctx)
    then show ?thesis
      using False assms by (intro disjI2 exI [of _ w1]) (simp add: run_def ctx split: prod.split)
  next
    case True
    obtain r2 w2 where 2: "fs_write (join p BUILD_CONTAINERFILE) cf w1 = (r2, w2)" by fastforce
    have "lookup (tree w1) (q @ [BUILD_CONTAINERFILE]) = None"
      using new(4) by (simp add: lookup_snoc)
    note written = fs_write_new [OF 2 plain_BUILD_CONTAINERFILE new(5) this]
    have kept: "keeps {} (tree w) (tree w2)" using new(6) written keeps_trans by blast
    show ?thesis
    proof (cases r2)
      case (Inl e)
      then show ?thesis
        using True assms 2 kept by (intro disjI1 exI [of _ e] exI [of _ w2]) (simp add: run_def ctx)
    next
      case (Inr u)
      have "leads_to w2 p q" "dir_at (tree w2) q"
        using leads_to_extends [OF new(5) keeps_extends] keeps_dir_at dir written by blast+
      then have "context_ready w ctx copy cf w2"
        using new(1,3,7) written kept Inr by (auto simp: context_ready_def ctx)
      then show ?thesis
        using True assms 2 Inr by (intro disjI2 exI [of _ w2]) (simp add: run_def ctx split: prod.split)
    qed
  qed
qed

text \<open>What a backend may change of the files that were there, through the command or the VM it runs.\<close>

definition touches_only :: "backend \<Rightarrow> string list set \<Rightarrow> bool" where
  "touches_only b S =
     (case b of
        BackendCli cc r \<Rightarrow> \<forall>cmd w. keeps S (tree w) (tree (snd (r cmd w)))
      | BackendVm config vr output \<Rightarrow> \<forall>req w. keeps S (tree w) (tree (snd (runner_run vr req w))))"

lemma container_build_keeps:
  assumes "tempfile_laws T" "\<And>cmd w. keeps S (tree w) (tree (snd (r cmd w)))"
    "container_build T cf tag cc r dir w = (res, w')"
  shows "keeps S (tree w) (tree w')"
  using container_build_steps [OF assms(1), of cf tag cc dir w]
proof (elim disjE exE conjE)
  fix e w1
  assume "\<forall>r. container_build T cf tag cc r dir w = (Err (BuildIo e), w1)" "keeps {} (tree w) (tree w1)"
  then show ?thesis using assms(3) keeps_mono by fastforce
next
  fix tmp w1
  assume ready: "containerfile_ready w cf tmp w1" and tmp: "snd tmp \<noteq> []"
    and b: "\<forall>r. container_build T cf tag cc r dir w =
      (case r (build_command cc (fst tmp) tag dir) w1 of (r, w2) \<Rightarrow> (build_outcome r, drop_temp T tmp w2))"
  obtain p q where pq: "tmp = (p, q)" by fastforce
  obtain res2 w2 where 2: "r (build_command cc (fst tmp) tag dir) w1 = (res2, w2)" by fastforce
  have "keeps S (tree w) (tree w2)"
    using ready assms(2) [of w1 "build_command cc (fst tmp) tag dir"] 2 keeps_mono [of "{}"] keeps_trans
    unfolding containerfile_ready_def by (metis empty_subsetI snd_conv)
  moreover have "keeps (S \<union> {s. prefix q s}) (tree w2) (tree (drop_temp T tmp w2))"
    using drop_tempD(3) [OF assms(1)] tmp keeps_mono by (simp add: pq) blast
  moreover have "w' = drop_temp T tmp w2" using b 2 assms(3) by simp
  moreover have "lookup (tree w) q = None" using ready by (simp add: containerfile_ready_def pq)
  ultimately show ?thesis using keeps_fresh by blast
qed

lemma run_backend_keeps:
  assumes "tempfile_laws T" "touches_only b S" "context_ready w0 ctx copy cf w"
    "run_backend T cf tag (fst ctx) b w = (res, w')"
  shows "keeps S (tree w0) (tree w')"
proof (cases b)
  case (BackendCli cc r)
  then obtain res1 where "container_build T cf tag cc r (fst ctx) w = (res1, w')"
    using assms(4) by (auto simp: run_backend_def split: prod.splits)
  then have "keeps S (tree w) (tree w')"
    using container_build_keeps [OF assms(1), of S r] assms(2) by (auto simp: BackendCli touches_only_def)
  moreover have "keeps S (tree w0) (tree w)"
    using assms(3) keeps_mono by (auto simp: context_ready_def)
  ultimately show ?thesis using keeps_trans by blast
next
  case (BackendVm config vr outp)
  then obtain res1 where b: "VmImageBuilder.build cf tag config vr (fst ctx) outp w = (res1, w')"
    using assms(4) by (auto simp: run_backend_def split: prod.splits)
  obtain prepared w1 where
    p: "\<forall>runner. VmImageBuilder.build cf tag config runner (fst ctx) outp w =
      (case prepared of Inl e \<Rightarrow> (Err e, w1) | Inr req \<Rightarrow> runner_run runner req w1)"
    and k: "keeps (containerfile_spot w (fst ctx)) (tree w) (tree w1)"
    using build_request by blast
  have "containerfile_spot w (fst ctx) \<subseteq> {s. prefix (snd ctx) s}"
    using assms(3) leads_to_det by (fastforce simp: containerfile_spot_def context_ready_def)
  then have "keeps {} (tree w0) (tree w1)"
    using assms(3) k keeps_mono keeps_temporary unfolding context_ready_def by meson
  then have "keeps S (tree w0) (tree w1)" using keeps_mono by blast
  moreover have "keeps S (tree w1) (tree w')"
    using p b assms(2) by (cases prepared) (auto simp: BackendVm touches_only_def, metis snd_conv)
  ultimately show ?thesis using keeps_trans by blast
qed

lemma run_ends:
  assumes "tempfile_laws T" "touches_only b S" "new_temp_dir T w = (Ok ctx, w1)"
    "run T tag from copy b w = (res, w')"
  shows "\<exists>w2. w' = drop_temp T ctx w2 \<and> keeps S (tree w) (tree w2)"
proof (cases "generate from copy")
  case (Inl e)
  then have "w' = drop_temp T ctx w1" using assms(3,4) by (simp add: run_def)
  moreover have "keeps {} (tree w) (tree w1)" using new_temp_dirD(6) [OF assms(1)] assms(3) by (cases ctx) simp
  ultimately show ?thesis using keeps_mono by blast
next
  case (Inr cf)
  from run_steps [OF assms(1,3) this, of tag] show ?thesis
  proof (elim disjE exE conjE)
    fix e w2
    assume "\<forall>b. run T tag from copy b w = (Err (RunIo e), drop_temp T ctx w2)" "keeps {} (tree w) (tree w2)"
    then show ?thesis using assms(4) keeps_mono by (metis empty_subsetI snd_conv)
  next
    fix w2
    assume ready: "context_ready w ctx copy cf w2"
      and r: "\<forall>b. run T tag from copy b w =
        (case run_backend T cf tag (fst ctx) b w2 of (res, w3) \<Rightarrow> (res, drop_temp T ctx w3))"
    obtain res3 w3 where "run_backend T cf tag (fst ctx) b w2 = (res3, w3)" by fastforce
    with run_backend_keeps [OF assms(1,2) ready this] r assms(4) show ?thesis by auto
  qed
qed

text \<open>What \<open>run\<close> returns does not depend on how its removals go.\<close>

lemma container_build_result:
  "fst (container_build (T\<lparr>remove_temp := f\<rparr>) cf tag cc r dir w) = fst (container_build T cf tag cc r dir w)"
  by (simp add: container_build_def split: prod.split sum.split)

lemma run_result: "fst (run (T\<lparr>remove_temp := f\<rparr>) tag from copy b w) = fst (run T tag from copy b w)"
proof -
  have "fst (run_backend (T\<lparr>remove_temp := f\<rparr>) cf tag dir b w) = fst (run_backend T cf tag dir b w)" for cf dir w
    using container_build_result [of f T cf tag] by (simp add: run_backend_def split_beta split: backend.split)
  then show ?thesis by (simp add: run_def split_beta split: sum.split)
qed

text \<open>C4. A run leaves nothing behind. On every way out - the reference refused, the copy of the Containerfile
  not written, the backend failed or done - \<open>run\<close> ends with the removal of the directory it made, of which,
  unless that removal fails, nothing is left; and of the files that were there before, none has
  changed but those the command or the VM of the backend itself has changed. How the removals go
  has no part in what is returned.\<close>
theorem run_cleans_up:
  assumes "tempfile_laws T" "touches_only b S" "new_temp_dir T w = (Ok ctx, w1)"
    "run T tag from copy b w = (res, w')"
  shows "lookup (tree w) (snd ctx) = None \<and> (\<exists>w2. dropped T ctx w2 w') \<and> keeps S (tree w) (tree w') \<and>
    (\<forall>f. fst (run (T\<lparr>remove_temp := f\<rparr>) tag from copy b w) = res)"
proof -
  obtain p q where ctx: "ctx = (p, q)" by fastforce
  note new = new_temp_dirD [OF assms(1) assms(3) [unfolded ctx]]
  obtain w2 where w2: "w' = drop_temp T ctx w2" "keeps S (tree w) (tree w2)" using run_ends [OF assms] by blast
  have "keeps (S \<union> {s. prefix q s}) (tree w2) (tree w')"
    using drop_tempD(3) [OF assms(1) new(1)] keeps_mono unfolding w2(1) ctx by blast
  then have "keeps S (tree w) (tree w')" using keeps_fresh [OF w2(2) new(3)] by blast
  moreover have "dropped T ctx w2 w'" using drop_tempD(2) [OF assms(1) new(1)] by (simp add: w2(1) ctx)
  ultimately show ?thesis using new(3) run_result [of _ T] assms(4) by (auto simp: ctx)
qed


subsection \<open>What success means\<close>

lemma main_success:
  assumes "main_program h c w = (fin, w')" "exit_code fin = 0"
  shows "\<exists>s w1. check_vm_flags c = Ok () \<and> select_runtime h c w = (Inr s, w1) \<and>
    run (h_tempfiles h) (cli_tag c) (cli_from c) (cli_copy_containerfile c) (backend_for h s) w1 = (Inr (), w') \<and>
    stdout fin = (case build_summary s of None \<Rightarrow> [] | Some line \<Rightarrow> [line]) \<and> stderr fin = []"
  using assms by (auto simp: main_program_def failed_with_def split: sum.splits prod.splits)

lemma run_success:
  assumes "tempfile_laws T" "run T tag from copy b w = (Inr (), w')"
  shows "\<exists>ctx cf w1 w2. generate from copy = Ok cf \<and> context_ready w ctx copy cf w1 \<and>
    run_backend T cf tag (fst ctx) b w1 = (Inr (), w2) \<and> dropped T ctx w2 w'"
proof -
  obtain ctx w1 where n: "new_temp_dir T w = (Inr ctx, w1)"
    using assms(2) by (auto simp: run_def split: sum.splits prod.splits)
  obtain cf where g: "generate from copy = Inr cf"
    using assms(2) n by (auto simp: run_def split: sum.splits)
  obtain w2 where ready: "context_ready w ctx copy cf w2"
    and "run T tag from copy b w =
      (case run_backend T cf tag (fst ctx) b w2 of (res, w3) \<Rightarrow> (res, drop_temp T ctx w3))"
    using run_steps [OF assms(1) n g, of tag] assms(2) by auto
  moreover obtain res w3 where "run_backend T cf tag (fst ctx) b w2 = (res, w3)" by fastforce
  ultimately have "run_backend T cf tag (fst ctx) b w2 = (Inr (), w3)" "w' = drop_temp T ctx w3"
    using assms(2) by auto
  moreover have "dropped T ctx w3 (drop_temp T ctx w3)"
    using drop_tempD(2) [OF assms(1), of "snd ctx"] ready by (cases ctx) (simp add: context_ready_def)
  ultimately show ?thesis using g ready by blast
qed

lemma container_build_Ok:
  assumes "tempfile_laws T" "container_build T cf tag cc r dir w = (Inr (), w')"
  shows "\<exists>tmp w1 w2. containerfile_ready w cf tmp w1 \<and> cwd w1 = cwd w \<and>
    r (build_command cc (fst tmp) tag dir) w1 = (Ok (Exit_code 0), w2) \<and> dropped T tmp w2 w'"
proof -
  obtain tmp w1 where ready: "containerfile_ready w cf tmp w1" "cwd w1 = cwd w" and tmp: "snd tmp \<noteq> []"
    and b: "container_build T cf tag cc r dir w =
      (case r (build_command cc (fst tmp) tag dir) w1 of (res, w2) \<Rightarrow> (build_outcome res, drop_temp T tmp w2))"
    using container_build_steps [OF assms(1), of cf tag cc dir w] assms(2) by auto
  obtain res w2 where res: "r (build_command cc (fst tmp) tag dir) w1 = (res, w2)" by fastforce
  with b assms(2) have "build_outcome res = Inr ()" "w' = drop_temp T tmp w2" by auto
  moreover have "dropped T tmp w2 (drop_temp T tmp w2)" using drop_tempD(2) [OF assms(1) tmp] by (cases tmp) simp
  moreover from \<open>build_outcome res = Inr ()\<close> have "res = Ok (Exit_code 0)"
    by (auto simp: build_outcome_def success_def split: sum.splits if_splits exit_status.splits)
  ultimately show ?thesis using ready res by blast
qed

text \<open>C3. When the program ends with 0 for a container runtime, no flag of the VM backend was given, the
  tool was found in the path, and it was run, as \<open><tool> build -f <file> -t <tag> <context>\<close>, and
  exited with 0: at that moment the file held the whole Containerfile generated for the reference, the
  context, a directory of its own, held the copy of it that was asked for, and no file of the host
  had been changed. Nothing is printed; the file and then the context are removed, and of either nothing
  is left unless its removal fails.\<close>
theorem main_container_success:
  assumes "tempfile_laws (h_tempfiles h)" "runtime_cli (cli_runtime c) = Some cc"
    "main_program h c w = (fin, w')" "exit_code fin = 0"
  shows "(\<forall>flag. (flag, True) \<notin> set (vm_flags c)) \<and> h_which h (binary cc) \<and> stdout fin = [] \<and>
    (\<exists>cf ctx tmp w1 w2 w3. generate (cli_from c) (cli_copy_containerfile c) = Ok cf \<and>
       (\<exists>m. lookup (tree w1) (snd tmp) = Some (File m cf)) \<and> leads_to w1 (fst tmp) (snd tmp) \<and>
       leads_to w1 (fst ctx) (snd ctx) \<and> lookup (tree w) (snd ctx) = None \<and>
       (cli_copy_containerfile c \<longrightarrow>
          (\<exists>m. lookup (tree w1) (snd ctx @ [BUILD_CONTAINERFILE]) = Some (File m cf))) \<and>
       keeps {} (tree w) (tree w1) \<and>
       h_command h \<lparr>program = binary cc,
         arguments = [''build'', ''-f'', fst tmp, ''-t'', cli_tag c, fst ctx]\<rparr> w1 = (Ok (Exit_code 0), w2) \<and>
       dropped (h_tempfiles h) tmp w2 w3 \<and> dropped (h_tempfiles h) ctx w3 w')"
proof -
  obtain s w0 where ok: "check_vm_flags c = Ok ()" "select_runtime h c w = (Inr s, w0)"
    and run: "run (h_tempfiles h) (cli_tag c) (cli_from c) (cli_copy_containerfile c) (backend_for h s) w0 = (Inr (), w')"
    and out: "stdout fin = (case build_summary s of None \<Rightarrow> [] | Some line \<Rightarrow> [line])"
    using main_success [OF assms(3,4)] by blast
  have s: "s = SelectedCli cc" "w0 = w" "h_which h (binary cc)"
    using ok(2) assms(2) by (auto simp: select_runtime_def check_in_path_def split: sum.splits if_splits)
  have "cli_runtime c \<noteq> RuntimeVm" using assms(2) by (auto simp: runtime_cli_def)
  then have flags: "(flag, True) \<notin> set (vm_flags c)" for flag
    using ok(1) by (auto simp: check_vm_flags_def find_None_iff split: option.splits)
  obtain ctx cf w1 w2 where g: "generate (cli_from c) (cli_copy_containerfile c) = Ok cf"
    and ctx: "context_ready w ctx (cli_copy_containerfile c) cf w1"
    and b: "run_backend (h_tempfiles h) cf (cli_tag c) (fst ctx) (backend_for h s) w1 = (Inr (), w2)"
    and gone: "dropped (h_tempfiles h) ctx w2 w'"
    using run_success [OF assms(1) run] s by blast
  have "container_build (h_tempfiles h) cf (cli_tag c) cc (h_command h) (fst ctx) w1 = (Inr (), w2)"
    using b s by (auto simp: run_backend_def backend_for_def split: prod.splits sum.splits)
  then obtain tmp w3 w4 where tmp: "containerfile_ready w1 cf tmp w3" and cwd3: "cwd w3 = cwd w1"
    and cmd: "h_command h (build_command cc (fst tmp) (cli_tag c) (fst ctx)) w3 = (Ok (Exit_code 0), w4)"
      "dropped (h_tempfiles h) tmp w4 w2"
    using container_build_Ok [OF assms(1)] by blast
  have k: "keeps {} (tree w1) (tree w3)" using tmp by (simp add: containerfile_ready_def)
  then have "keeps {} (tree w) (tree w3)"
    using ctx keeps_trans by (auto simp: context_ready_def)
  moreover have "\<exists>m. lookup (tree w3) (snd ctx @ [BUILD_CONTAINERFILE]) = Some (File m cf)"
    if "cli_copy_containerfile c"
    using that ctx keeps_file [OF k] by (auto simp: context_ready_def)
  moreover have "leads_to w3 (fst ctx) (snd ctx)"
    using ctx leads_to_extends [OF _ keeps_extends [OF k] cwd3] by (simp add: context_ready_def)
  ultimately show ?thesis
    using flags s out g ctx tmp cmd gone
    by (intro conjI exI [of _ cf] exI [of _ ctx] exI [of _ tmp] exI [of _ w3] exI [of _ w4] exI [of _ w2])
      (simp_all add: context_ready_def containerfile_ready_def build_summary_def build_command_def)
qed


lemma vm_build_Ok:
  assumes "VmImageBuilder.build cf tag config (krun_runner h) (fst ctx) outp w1 = (Inr (), w2)"
    "libkrun_available (h_target h)" "context_ready w0 ctx copy cf w1"
  shows "\<exists>req w3. request_resolved cf tag config (fst ctx) outp w1 req w3 \<and> h_boot h req w3 = (Ok (), w2) \<and>
    build_context req = path_string (snd ctx) \<and>
    (\<exists>m. lookup (tree w3) (snd ctx @ [CONTAINERFILE_NAME]) = Some (File m cf)) \<and>
    (copy \<longrightarrow> (\<exists>m. lookup (tree w3) (snd ctx @ [BUILD_CONTAINERFILE]) = Some (File m cf))) \<and>
    keeps {} (tree w0) (tree w3)"
proof -
  obtain prepared w3 where
    p: "\<forall>runner. VmImageBuilder.build cf tag config runner (fst ctx) outp w1 =
      (case prepared of Inl e \<Rightarrow> (Err e, w3) | Inr req \<Rightarrow> runner_run runner req w3)"
    and k: "keeps (containerfile_spot w1 (fst ctx)) (tree w1) (tree w3)"
    and r: "\<forall>req. prepared = Ok req \<longrightarrow> request_resolved cf tag config (fst ctx) outp w1 req w3"
    using build_request by blast
  obtain req where req: "prepared = Ok req" "runner_run (krun_runner h) req w3 = (Inr (), w2)"
    using p assms(1) by (cases prepared) auto
  have boot: "h_boot h req w3 = (Ok (), w2)" using req(2) assms(2) by (simp add: krun_runner_def)
  have res: "request_resolved cf tag config (fst ctx) outp w1 req w3" using r req by blast
  have at: "leads_to w1 (fst ctx) d \<Longrightarrow> d = snd ctx" for d
    using assms(3) leads_to_det by (simp add: context_ready_def)
  have spot: "containerfile_spot w1 (fst ctx) = {snd ctx @ [CONTAINERFILE_NAME]}"
    using at assms(3) by (auto simp: containerfile_spot_def context_ready_def)
  have "build_context req = path_string (snd ctx)"
    "\<exists>m. lookup (tree w3) (snd ctx @ [CONTAINERFILE_NAME]) = Some (File m cf)"
    using res at by (auto simp: request_resolved_def containerfile_in_def)
  moreover have "snd ctx @ [BUILD_CONTAINERFILE] \<notin> containerfile_spot w1 (fst ctx)"
    unfolding spot by (simp add: BUILD_CONTAINERFILE_def CONTAINERFILE_NAME_def)
  then have "copy \<Longrightarrow> \<exists>m. lookup (tree w3) (snd ctx @ [BUILD_CONTAINERFILE]) = Some (File m cf)"
    using assms(3) keeps_file [OF k] by (auto simp: context_ready_def)
  moreover have "keeps {} (tree w0) (tree w3)"
    by (rule keeps_temporary [of _ "tree w1" "snd ctx"])
      (use assms(3) k spot in \<open>auto simp: context_ready_def intro: keeps_mono\<close>)
  ultimately show ?thesis using res boot by blast
qed

text \<open>A rootfs that passed its check is where it was when the backend starts.\<close>

lemma checked_rootfs_leads:
  assumes "check_rootfs config w = (Inr (), w0)" "context_ready w0 ctx copy cf w1" "leads_to w1 (rootfs config) r"
  shows "leads_to w0 (rootfs config) r"
proof -
  have same: "same_files w w0" using check_rootfs_same [OF assms(1)] .
  obtain r0 where "leads_to w (rootfs config) r0"
    using check_rootfs_is_dir [OF assms(1)] by (auto simp: stat_in_def resolve_leads_to split: sum.splits)
  then have r0: "leads_to w0 (rootfs config) r0" using leads_to_same [OF same] by blast
  then have "leads_to w1 (rootfs config) r0"
    using leads_to_extends [OF r0 keeps_extends] assms(2) by (auto simp: context_ready_def)
  then show ?thesis using r0 assms(3) leads_to_det by blast
qed

lemma main_vm_booted:
  assumes "tempfile_laws (h_tempfiles h)" "cli_runtime c = RuntimeVm"
    "main_program h c w = (fin, w')" "exit_code fin = 0"
  shows "libkrun_available (h_target h) \<and>
    (\<exists>config outp w0. select_runtime h c w = (Ok (SelectedVm config outp), w0) \<and>
       outp = (case cli_vm_output c of Some p \<Rightarrow> p | None \<Rightarrow> vm_output_path (cli_tag c)) \<and>
       stdout fin = [''Wrote '' @ to_string_lossy outp] \<and>
       (\<exists>cf p q req w1 w2. generate (cli_from c) (cli_copy_containerfile c) = Ok cf \<and>
          lookup (tree w0) q = None \<and> build_context req = path_string q \<and>
          (\<exists>m. lookup (tree w1) (q @ [CONTAINERFILE_NAME]) = Some (File m cf)) \<and>
          (cli_copy_containerfile c \<longrightarrow>
             (\<exists>m. lookup (tree w1) (q @ [BUILD_CONTAINERFILE]) = Some (File m cf))) \<and>
          (\<exists>r. leads_to w0 (rootfs config) r \<and> build_rootfs req = path_string r) \<and>
          (\<exists>r. leads_to w1 (output_parent outp) r \<and> output_dir req = path_string r) \<and>
          build_tag req = cli_tag c \<and> build_cpus req = cpus config \<and>
          build_memory_mib req = memory_mib config \<and> build_nameservers req = nameservers config \<and>
          keeps {} (tree w0) (tree w1) \<and>
          h_boot h req w1 = (Ok (), w2) \<and>
          dropped (h_tempfiles h) (p, q) w2 w'))"
proof -
  obtain s w0 where sel: "select_runtime h c w = (Inr s, w0)"
    and run: "run (h_tempfiles h) (cli_tag c) (cli_from c) (cli_copy_containerfile c) (backend_for h s) w0 = (Inr (), w')"
    and out: "stdout fin = (case build_summary s of None \<Rightarrow> [] | Some line \<Rightarrow> [line])"
    using main_success [OF assms(3,4)] by blast
  obtain config outp where s: "s = SelectedVm config outp" "libkrun_available (h_target h)"
    "outp = (case cli_vm_output c of Some p \<Rightarrow> p | None \<Rightarrow> vm_output_path (cli_tag c))"
    using select_runtime_vm [OF assms(2) sel] by blast
  obtain wc where checked: "check_rootfs config wc = (Inr (), w0)"
    using select_runtime_vm [OF assms(2) sel] s(1) by blast
  obtain ctx cf w1 w2 where g: "generate (cli_from c) (cli_copy_containerfile c) = Ok cf"
    and ctx: "context_ready w0 ctx (cli_copy_containerfile c) cf w1"
    and b: "run_backend (h_tempfiles h) cf (cli_tag c) (fst ctx) (backend_for h s) w1 = (Inr (), w2)"
    and gone: "dropped (h_tempfiles h) ctx w2 w'"
    using run_success [OF assms(1) run] by blast
  have vb: "VmImageBuilder.build cf (cli_tag c) config (krun_runner h) (fst ctx) outp w1 = (Inr (), w2)"
    using b s(1) by (auto simp: run_backend_def backend_for_def split: prod.splits sum.splits)
  obtain req w3 where "request_resolved cf (cli_tag c) config (fst ctx) outp w1 req w3" "h_boot h req w3 = (Ok (), w2)"
    "build_context req = path_string (snd ctx)" "keeps {} (tree w0) (tree w3)"
    "\<exists>m. lookup (tree w3) (snd ctx @ [CONTAINERFILE_NAME]) = Some (File m cf)"
    "cli_copy_containerfile c \<longrightarrow> (\<exists>m. lookup (tree w3) (snd ctx @ [BUILD_CONTAINERFILE]) = Some (File m cf))"
    using vm_build_Ok [OF vb s(2) ctx] by blast
  moreover from this(1) obtain r where "leads_to w1 (rootfs config) r" "build_rootfs req = path_string r"
    by (auto simp: request_resolved_def)
  then have "\<exists>r. leads_to w0 (rootfs config) r \<and> build_rootfs req = path_string r"
    using checked_rootfs_leads [OF checked ctx] by blast
  moreover have "build_tag req = cli_tag c" "build_cpus req = cpus config" "build_memory_mib req = memory_mib config"
    "build_nameservers req = nameservers config" "\<exists>r. leads_to w3 (output_parent outp) r \<and> output_dir req = path_string r"
    using \<open>request_resolved _ _ _ _ _ _ _ _\<close> by (auto simp: request_resolved_def)
  moreover have "dropped (h_tempfiles h) (fst ctx, snd ctx) w2 w'" "lookup (tree w0) (snd ctx) = None"
    using gone ctx by (simp_all add: context_ready_def)
  moreover have "stdout fin = [''Wrote '' @ to_string_lossy outp]" using out s(1) by (simp add: build_summary_def)
  ultimately show ?thesis using sel s g by metis
qed

text \<open>C2. When the program ends with 0 for the VM runtime, the host supports libkrun and the one
  request it booted returned normally. The request names by canonical path the rootfs that was checked and the context, in which by then the
  generated Containerfile is whole, with the copy of it where one was asked for, and carries the tag and the
  limits of the configuration that was selected; the line printed names the output, the one given
  or the one derived from the tag; and last the context is removed, of which nothing is left unless
  that fails.\<close>
theorem main_vm_success:
  assumes "tempfile_laws (h_tempfiles h)" "cli_runtime c = RuntimeVm"
    "main_program h c w = (fin, w')" "exit_code fin = 0"
  shows "libkrun_available (h_target h) \<and>
    (\<exists>config outp w0. select_runtime h c w = (Ok (SelectedVm config outp), w0) \<and>
       outp = (case cli_vm_output c of Some p \<Rightarrow> p | None \<Rightarrow> vm_output_path (cli_tag c)) \<and>
       stdout fin = [''Wrote '' @ to_string_lossy outp] \<and>
       (\<exists>cf p q req w1 w2. generate (cli_from c) (cli_copy_containerfile c) = Ok cf \<and>
          lookup (tree w0) q = None \<and> build_context req = path_string q \<and>
          (\<exists>m. lookup (tree w1) (q @ [CONTAINERFILE_NAME]) = Some (File m cf)) \<and>
          (cli_copy_containerfile c \<longrightarrow>
             (\<exists>m. lookup (tree w1) (q @ [BUILD_CONTAINERFILE]) = Some (File m cf))) \<and>
          (\<exists>r. leads_to w0 (rootfs config) r \<and> build_rootfs req = path_string r) \<and>
          (\<exists>r. leads_to w1 (output_parent outp) r \<and> output_dir req = path_string r) \<and>
          build_tag req = cli_tag c \<and> build_cpus req = cpus config \<and>
          build_memory_mib req = memory_mib config \<and> build_nameservers req = nameservers config \<and>
          keeps {} (tree w0) (tree w1) \<and>
          h_boot h req w1 = (Ok (), w2) \<and>
          dropped (h_tempfiles h) (p, q) w2 w'))"
  using assms by (rule main_vm_booted)


text \<open>C5. The VM that was booted is the one the program carries. When no rootfs is named on the command line
  and the program ends with 0, the rootfs of the request is, by its canonical path, the version's
  directory in the cache, whose marker records the digest of the embedded archive - whether this
  run installed it or an earlier one did.\<close>
theorem main_vm_boots_embedded:
  assumes "tempfile_laws (h_tempfiles h)" "cli_runtime c = RuntimeVm" "cli_vm_rootfs c = None"
    "cache_root (h_data_dir h) = Ok root" "unpack_laws (h_unpackers h) (h_archive h)" "reaches root q"
    "clean (tree w) q (h_pid h)" "ascii (h_digest h)"
    "main_program h c w = (fin, w')" "exit_code fin = 0"
  shows "\<exists>w0 req w1 w2 r. marker_recorded w0 (join root VERSION) (cache_key (h_digest h)) \<and>
    leads_to w0 (join root VERSION) r \<and> build_rootfs req = path_string r \<and>
    keeps {} (tree w0) (tree w1) \<and> h_boot h req w1 = (Ok (), w2)"
proof -
  obtain config outp w0 req w1 w2 where sel: "select_runtime h c w = (Ok (SelectedVm config outp), w0)"
    and boot: "\<exists>r. leads_to w0 (rootfs config) r \<and> build_rootfs req = path_string r"
      "keeps {} (tree w0) (tree w1)" "h_boot h req w1 = (Ok (), w2)"
    using main_vm_booted [OF assms(1,2,9,10)] by metis
  obtain wc where a: "assemble_vm_config h None (cli_vm_cpus c) (cli_vm_memory c) (cli_vm_dns c) w = (Inr config, wc)"
    and k: "check_rootfs config wc = (Inr (), w0)"
    using select_runtime_vm [OF assms(2) sel] assms(3) by auto
  have "install (h_unpackers h) (h_dns h) (h_pid h) (h_archive h) (h_digest h) root w = (Inr (rootfs config), wc)"
    using a assms(4) by (auto simp: assemble_vm_config_def ensure_extracted_def split: sum.splits prod.splits)
  note marked = install_marked [OF assms(5-8) this]
  then have m: "rootfs config = join root VERSION" by blast
  have "marker_recorded w0 (join root VERSION) (cache_key (h_digest h))"
    using marked check_rootfs_same [OF k] unfolding m by (simp add: marker_recorded_def same_files_def)
  then show ?thesis using boot unfolding m by metis
qed

end
