(* ===== verification/VmRootfsSamples.thy ===== *)
theory VmRootfsSamples
  imports VmRootfs
begin

text \<open>
  Concrete caches for the properties of \<open>VmRootfs\<close>: an archive that unpacks to the sample rootfs,
  one that does not unpack, and installations over both.
\<close>

text \<open>An archive that unpacks to the sample rootfs, and any other that fails half way.\<close>

definition sample_unpackers :: unpackers where
  "sample_unpackers =
     \<lparr>zstd_decoder = (\<lambda>a. Ok ()),
      tar_unpack = (\<lambda>a p w.
        (case resolve w p of
           Inl e \<Rightarrow> (Err e, w)
         | Inr q \<Rightarrow>
             if a = ''archive'' then (Ok (), w\<lparr>tree := insert_at q sample_rootfs (tree w)\<rparr>)
             else (Err (IoError InvalidData ''truncated''), w)))\<rparr>"

lemma sample_unpackers_laws: "unpack_laws sample_unpackers a"
  unfolding unpack_laws_def
proof (intro allI impI)
  fix p q n w res w'
  assume r: "reaches p (q @ [n])" and d: "dir_at (tree w) (q @ [n])"
    and u: "tar_unpack sample_unpackers a p w = (res, w')"
  have "resolve w p = Ok (q @ [n])"
    using leads_to_direct [OF r d] reaches_nonempty [OF r] by (simp add: resolve_leads_to)
  moreover have dq: "dir_at (tree w) q" using dir_at_prefix [of "tree w" q "[n]"] d by simp
  moreover have i: "lookup (insert_at (q @ [n]) sample_rootfs (tree w)) ((q @ [n]) @ s) = lookup sample_rootfs s" for s
    using dq lookup_insert_at [of "q @ [n]"] by simp
  moreover have "lookup sample_rootfs [MARKER] = None" by code_simp
  moreover have "dir_at (insert_at (q @ [n]) sample_rootfs (tree w)) (q @ [n])"
    using i [of "[]"] by (simp add: dir_at_def sample_rootfs_def)
  ultimately show "touched q n w w' \<and> dir_at (tree w') (q @ [n]) \<and>
        (no_link (tree w) (q @ [n, MARKER]) \<longrightarrow> no_link (tree w') (q @ [n, MARKER])) \<and>
        (no_faults w \<longrightarrow> no_faults w')"
    using u d i [of "[MARKER]"]
    by (auto simp: sample_unpackers_def no_link_def touched_same intro: touched_insert_at split: if_splits)
qed

definition quiet_dns :: host_dns where
  "quiet_dns = \<lparr>target_macos = False, scutil_run = Err not_found, resolv_conf_text = Err not_found\<rparr>"

text \<open>A cache with an old version, another process's staging directory and a plain file.\<close>

definition cache_world :: world where
  "cache_world =
     \<lparr>tree = Dir [(''cache'', Dir [(''0.1.0'', Dir []), (''.staging-0.13.0-next-8'', Dir [(''x'', File 0x1A4 ''y'')]),
        (''note'', File 0x1A4 ''z'')])], cwd = [], faults = []\<rparr>"

lemma cache_world_facts:
  "reaches ''/cache'' [''cache'']" "clean (tree cache_world) [''cache''] 7" "no_faults cache_world"
  "direct (tree cache_world) [''cache'']" "ascii ''abc''" "(''archive'' :: string) \<noteq> []" "(''bad'' :: string) \<noteq> []"
  "\<not> file_at (tree cache_world) ([''cache''] @ [staging_name 7])"
proof -
  have "components ''/cache'' = [RootDir, Normal ''cache'']" by code_simp
  then show "reaches ''/cache'' [''cache'']" by (simp add: reaches_def)
  show "clean (tree cache_world) [''cache''] 7" by code_simp
  show "no_faults cache_world" by (simp add: no_faults_def cache_world_def)
  show "direct (tree cache_world) [''cache'']" by code_simp
  show "ascii ''abc''" by code_simp
  show "\<not> file_at (tree cache_world) ([''cache''] @ [staging_name 7])" by code_simp
qed simp_all

lemma cache_world_install:
  "fst (install sample_unpackers quiet_dns 7 ''archive'' digest ''/cache'' cache_world) = Ok ''/cache/0.13.0-next''"
proof -
  define key where "key = cache_key digest"
  show ?thesis unfolding install_def Let_def key_def [symmetric] by code_simp
qed

lemma cache_world_failure:
  "\<exists>e. fst (install sample_unpackers quiet_dns 7 ''bad'' ''abc'' ''/cache'' cache_world) = Err e"
proof -
  have "\<not> is_ok (fst (install sample_unpackers quiet_dns 7 ''bad'' ''abc'' ''/cache'' cache_world))" by code_simp
  then show ?thesis
    by (cases "fst (install sample_unpackers quiet_dns 7 ''bad'' ''abc'' ''/cache'' cache_world)") auto
qed

lemma sweep_spares_witness:
  "lookup (tree (sweep_old_versions ''/cache'' (join ''/cache'' VERSION) cache_world)) [''cache'', ''note'']
     = Some (File 0x1A4 ''z'')"
  using sweep_spares [OF cache_world_facts(1,4)] by (auto simp: cache_world_def)

lemma install_stays_inside_witness:
  "\<exists>res w'. install sample_unpackers quiet_dns 7 ''archive'' ''abc'' ''/cache'' cache_world = (res, w') \<and>
     below_only [''cache''] (tree cache_world) (tree w')"
proof -
  obtain res w' where w': "install sample_unpackers quiet_dns 7 ''archive'' ''abc'' ''/cache'' cache_world = (res, w')"
    by fastforce
  from install_stays_inside [OF sample_unpackers_laws cache_world_facts(1,2) this] w' show ?thesis by blast
qed

lemma install_ok_marked_witness:
  "\<exists>w'. install sample_unpackers quiet_dns 7 ''archive'' ''abc'' ''/cache'' cache_world = (Ok ''/cache/0.13.0-next'', w') \<and>
     marker_recorded w' ''/cache/0.13.0-next'' (cache_key ''abc'')"
proof -
  obtain w' where w': "install sample_unpackers quiet_dns 7 ''archive'' ''abc'' ''/cache'' cache_world = (Ok ''/cache/0.13.0-next'', w')"
    using cache_world_install by (metis prod.collapse)
  from install_ok_marked [OF sample_unpackers_laws cache_world_facts(1,2,5) this] w' show ?thesis by blast
qed

lemma install_failure_leaves_nothing_witness:
  "\<exists>e w'. install sample_unpackers quiet_dns 7 ''bad'' ''abc'' ''/cache'' cache_world = (Err e, w') \<and>
     lookup (tree w') [''cache'', staging_name 7] = None"
proof -
  obtain e w' where w': "install sample_unpackers quiet_dns 7 ''bad'' ''abc'' ''/cache'' cache_world = (Err e, w')"
    using cache_world_failure by (metis prod.collapse)
  from install_failure_leaves_nothing [OF sample_unpackers_laws cache_world_facts(1-3,8,7) this] w'
  show ?thesis by auto
qed

lemma install_keeps_or_replaces_witness:
  "\<exists>w'. install sample_unpackers quiet_dns 7 ''archive'' ''abc'' ''/cache'' cache_world = (Ok ''/cache/0.13.0-next'', w') \<and>
    ((\<forall>s. lookup (tree w') (''cache'' # VERSION # s) = lookup (tree cache_world) (''cache'' # VERSION # s)) \<or>
     (\<exists>w1 w2. lookup (tree w1) [''cache'', staging_name 7] = Some (Dir []) \<and>
       tar_unpack sample_unpackers ''archive'' (join ''/cache'' (staging_name 7)) w1 = (Ok (), w2) \<and>
       (\<forall>x s. x \<noteq> MARKER \<longrightarrow>
          lookup (tree w') (''cache'' # VERSION # x # s) = lookup (tree w2) (''cache'' # staging_name 7 # x # s))))"
proof -
  obtain w' where w': "install sample_unpackers quiet_dns 7 ''archive'' ''abc'' ''/cache'' cache_world = (Ok ''/cache/0.13.0-next'', w')"
    using cache_world_install by (metis prod.collapse)
  from install_keeps_or_replaces [OF sample_unpackers_laws cache_world_facts(1-3) this] w'
  show ?thesis by auto
qed

text \<open>The cache once the archive is installed.\<close>

definition installed_world :: world where
  "installed_world =
     \<lparr>tree = Dir [(''cache'', Dir [(''0.13.0-next'', Dir ((''.rootfs-archive'', File 0x1A4 ''0.13.0-next-abc'') #
        entries sample_rootfs))])], cwd = [], faults = []\<rparr>"

lemma install_hit_or_empty_witness:
  "fst (install sample_unpackers quiet_dns 7 ''archive'' ''abc'' ''/cache'' installed_world) = Ok (join ''/cache'' VERSION) \<and>
   tree (snd (install sample_unpackers quiet_dns 7 ''archive'' ''abc'' ''/cache'' installed_world)) = tree installed_world"
proof -
  have nf: "no_faults installed_world" by (simp add: no_faults_def installed_world_def)
  have "stat installed_world (join (join ''/cache'' VERSION) MARKER) = Ok (File 0x1A4 ''0.13.0-next-abc'')"
    by code_simp
  moreover have "cache_key ''abc'' = ''0.13.0-next-abc''"
    by (simp add: cache_key_def VERSION_def trim_ascii [OF cache_world_facts(5)] strip_both_def is_space_char_def
        is_whitespace_def)
  then have "valid_utf8 ''0.13.0-next-abc''" "trim ''0.13.0-next-abc'' = cache_key ''abc''"
    using cache_key_ascii [OF cache_world_facts(5)] by simp_all
  ultimately have m: "marker_recorded installed_world (join ''/cache'' VERSION) (cache_key ''abc'')"
    unfolding marker_recorded_def by blast
  have "stat installed_world (helper_path (join ''/cache'' VERSION)) = Ok (File 0x1ED [])"
    by code_simp
  moreover have "stat installed_world (join ''/cache'' VERSION) =
      Ok (Dir ((''.rootfs-archive'', File 0x1A4 ''0.13.0-next-abc'') # entries sample_rootfs))"
    by code_simp
  moreover have "bit (0x1ED :: nat) 0" by simp
  ultimately have "usable_rootfs installed_world (join ''/cache'' VERSION)"
    unfolding usable_rootfs_def by blast
  with nf m cache_world_facts(6) show ?thesis
    using install_hit_or_empty [of sample_unpackers quiet_dns 7 "''abc''" "''/cache''" installed_world "''archive''"]
    by blast
qed

end
