(* ===== verification/CliSamples.thy ===== *)
theory CliSamples
  imports Cli VmRootfsSamples
begin

text \<open>
  Concrete command lines and hosts for the properties of \<open>Cli\<close>: a host where every call succeeds,
  with a container tool that exits with 0 and a VM that boots, and a build through each.
\<close>

definition sample_cli :: "runtime \<Rightarrow> cli" where
  "sample_cli r =
     \<lparr>cli_tag = ''t:1'', cli_runtime = r, cli_from = ''alpine:3.24'', cli_verbose = 0,
      cli_copy_containerfile = True, cli_vm_rootfs = None, cli_vm_output = None, cli_vm_cpus = None,
      cli_vm_memory = None, cli_vm_dns = []\<rparr>"

definition vm_cli :: cli where
  "vm_cli = (sample_cli RuntimeVm)\<lparr>cli_vm_rootfs := Some ''/rootfs'', cli_vm_output := Some ''/x.tar''\<rparr>"

definition able_host :: host where
  "able_host =
     \<lparr>h_which = (\<lambda>name. True), h_target = \<lparr>feature_krun = True, os_macos = True, arch_aarch64 = True\<rparr>,
      h_dns = quiet_dns, h_pid = 7, h_archive = ''archive'', h_digest = ''abc'', h_data_dir = None,
      h_unpackers = sample_unpackers, h_tempfiles = sample_tempfiles, h_command = fake_runner (Exit_code 0),
      h_boot = (\<lambda>b w. (Ok (), w)), h_printable = (\<lambda>c. True)\<rparr>"

definition vm_world :: world where
  "vm_world = \<lparr>tree = Dir [(''tmp'', Dir []), (''rootfs'', sample_rootfs)], cwd = [], faults = []\<rparr>"

lemma main_container_sample:
  "exit_code (fst (main_program able_host (sample_cli RuntimeDocker) tmp_world)) = 0"
  by code_simp

definition vm_selected :: vm_config where
  "vm_selected =
     \<lparr>rootfs = ''/rootfs'', cpus = DEFAULT_CPUS, memory_mib = DEFAULT_MEMORY_MIB,
      nameservers = default_nameservers quiet_dns\<rparr>"

lemma select_vm_sample: "fst (select_runtime able_host vm_cli vm_world) = Ok (SelectedVm vm_selected ''/x.tar'')"
  by code_simp

lemma main_vm_sample: "exit_code (fst (main_program able_host vm_cli vm_world)) = 0"
  by code_simp

subsection \<open>The properties at these inputs\<close>

lemma stray_vm_flag_stops_witness:
  "\<exists>given. main_program able_host ((sample_cli RuntimeDocker)\<lparr>cli_vm_cpus := Some 2\<rparr>) tmp_world =
     (\<lparr>exit_code = 1, stdout = [], stderr = [''Error: '' @ given @ '' is only supported with --runtime vm'']\<rparr>, tmp_world)"
  using stray_vm_flag_stops [of "(sample_cli RuntimeDocker)\<lparr>cli_vm_cpus := Some 2\<rparr>" "''--vm-cpus''"
      able_host tmp_world]
  by (auto simp: sample_cli_def vm_flags_def)

lemma selected_vm_usable_witness:
  "\<exists>config outp. fst (select_runtime able_host vm_cli vm_world) = Ok (SelectedVm config outp) \<and>
     nameservers config \<noteq> []"
proof -
  have "is_ok (parse_image_reference (cli_from vm_cli))" by code_simp
  then have "clap_accepts vm_cli" "cli_runtime vm_cli = RuntimeVm"
    by (simp_all add: clap_accepts_def vm_cli_def sample_cli_def)
  moreover obtain w1 where "select_runtime able_host vm_cli vm_world = (Ok (SelectedVm vm_selected ''/x.tar''), w1)"
    using select_vm_sample by (metis prod.collapse)
  ultimately show ?thesis using selected_vm_usable select_vm_sample by blast
qed

lemma vm_refused_before_extraction_witness:
  "snd (main_program (able_host\<lparr>h_target := \<lparr>feature_krun = False, os_macos = True, arch_aarch64 = True\<rparr>\<rparr>)
     vm_cli vm_world) = vm_world"
  using vm_refused_before_extraction [of vm_cli
      "able_host\<lparr>h_target := \<lparr>feature_krun = False, os_macos = True, arch_aarch64 = True\<rparr>\<rparr>" vm_world]
  by (simp add: vm_cli_def sample_cli_def libkrun_available_def)

lemma run_cleans_up_witness:
  "\<exists>res w' w2. run sample_tempfiles ''t:1'' ''alpine:3.24'' True (BackendCli Docker (fake_runner (Exit_code 7))) tmp_world
     = (res, w') \<and> keeps {} (tree tmp_world) (tree w') \<and>
     dropped sample_tempfiles (join ''/tmp'' ''d'', [''tmp'', ''d'']) w2 w'"
proof -
  let ?b = "BackendCli Docker (fake_runner (Exit_code 7))"
  have "dir_at (tree tmp_world) [''tmp''] \<and> lookup (tree tmp_world) [''tmp'', ''d''] = None" by code_simp
  then obtain w1 where new: "new_temp_dir sample_tempfiles tmp_world = (Ok (join ''/tmp'' ''d'', [''tmp'', ''d'']), w1)"
    by (simp add: sample_tempfiles_def sample_entry_def)
  have b: "touches_only ?b {}" by (simp add: touches_only_def fake_runner_def)
  obtain res w' where r: "run sample_tempfiles ''t:1'' ''alpine:3.24'' True ?b tmp_world = (res, w')" by fastforce
  from run_cleans_up [OF sample_tempfiles_laws b new r] r show ?thesis by blast
qed

lemma main_container_success_witness:
  "\<exists>cmd w1 w2. program cmd = ''docker'' \<and> h_command able_host cmd w1 = (Ok (Exit_code 0), w2)"
proof -
  obtain fin w' where run: "main_program able_host (sample_cli RuntimeDocker) tmp_world = (fin, w')"
    by fastforce
  have "tempfile_laws (h_tempfiles able_host)" "runtime_cli (cli_runtime (sample_cli RuntimeDocker)) = Some Docker"
    using sample_tempfiles_laws by (simp_all add: able_host_def sample_cli_def runtime_cli_def)
  from main_container_success [OF this run] run main_container_sample
  obtain args w1 w2 where
    "h_command able_host \<lparr>program = binary Docker, arguments = args\<rparr> w1 = (Ok (Exit_code 0), w2)"
    by auto
  then show ?thesis by (intro exI [of _ "\<lparr>program = binary Docker, arguments = args\<rparr>"]) (auto simp: binary_def)
qed

lemma main_vm_success_witness:
  "stdout (fst (main_program able_host vm_cli vm_world)) = [''Wrote '' @ to_string_lossy ''/x.tar''] \<and>
   (\<exists>req w1 w2. build_tag req = ''t:1'' \<and> h_boot able_host req w1 = (Ok (), w2))"
proof -
  obtain fin w' where run: "main_program able_host vm_cli vm_world = (fin, w')" by fastforce
  have "tempfile_laws (h_tempfiles able_host)" "cli_runtime vm_cli = RuntimeVm"
    using sample_tempfiles_laws by (simp_all add: able_host_def sample_cli_def vm_cli_def)
  from main_vm_success [OF this run] run main_vm_sample
  obtain outp req w1 w2 where "outp = (case cli_vm_output vm_cli of Some p \<Rightarrow> p | None \<Rightarrow> vm_output_path (cli_tag vm_cli))"
    "stdout fin = [''Wrote '' @ to_string_lossy outp]" "build_tag req = cli_tag vm_cli"
    "h_boot able_host req w1 = (Ok (), w2)"
    by (metis fst_conv)
  moreover have "cli_vm_output vm_cli = Some ''/x.tar''" "cli_tag vm_cli = ''t:1''"
    by (simp_all add: vm_cli_def sample_cli_def)
  ultimately show ?thesis using run by auto
qed


text \<open>The same host with a data directory, and a command line that names no rootfs.\<close>

definition data_host :: host where
  "data_host = able_host\<lparr>h_data_dir := Some ''/data''\<rparr>"

definition data_world :: world where
  "data_world = \<lparr>tree = Dir [(''tmp'', Dir []), (''data'', Dir [])], cwd = [], faults = []\<rparr>"

abbreviation data_root :: string where
  "data_root \<equiv> ''/data/openshell-build-image/vm-rootfs''"

lemma data_world_facts:
  "reaches data_root [''data'', ''openshell-build-image'', ''vm-rootfs'']"
  "clean (tree data_world) [''data'', ''openshell-build-image'', ''vm-rootfs''] 7"
  "cache_root (h_data_dir data_host) = Ok data_root"
proof -
  have "components data_root = [RootDir, Normal ''data'', Normal ''openshell-build-image'', Normal ''vm-rootfs'']"
    by code_simp
  then show "reaches data_root [''data'', ''openshell-build-image'', ''vm-rootfs'']" by (simp add: reaches_def)
  show "clean (tree data_world) [''data'', ''openshell-build-image'', ''vm-rootfs''] 7" by code_simp
  show "cache_root (h_data_dir data_host) = Ok data_root" by code_simp
qed

definition embedded_cli :: cli where
  "embedded_cli = vm_cli\<lparr>cli_vm_rootfs := None\<rparr>"

lemma main_embedded_sample: "exit_code (fst (main_program data_host embedded_cli data_world)) = 0"
  by code_simp

lemma main_vm_boots_embedded_witness:
  "\<exists>w0 (req :: vm_build) r. marker_recorded w0 (join data_root VERSION) (cache_key ''abc'') \<and>
     leads_to w0 (join data_root VERSION) r \<and> build_rootfs req = path_string r"
proof -
  obtain fin w' where run: "main_program data_host embedded_cli data_world = (fin, w')" by fastforce
  have d: "h_digest data_host = ''abc''" "h_pid data_host = 7" by (simp_all add: data_host_def able_host_def)
  have t: "tempfile_laws (h_tempfiles data_host)" "cli_runtime embedded_cli = RuntimeVm" "cli_vm_rootfs embedded_cli = None"
    "unpack_laws (h_unpackers data_host) (h_archive data_host)"
    using sample_tempfiles_laws sample_unpackers_laws
    by (simp_all add: data_host_def able_host_def embedded_cli_def vm_cli_def sample_cli_def)
  have e: "exit_code fin = 0" using main_embedded_sample run by simp
  have "clean (tree data_world) [''data'', ''openshell-build-image'', ''vm-rootfs''] (h_pid data_host)"
    "ascii (h_digest data_host)"
    unfolding d by (rule data_world_facts(2) cache_world_facts(5))+
  from main_vm_boots_embedded [OF t(1-3) data_world_facts(3) t(4) data_world_facts(1) this run e]
  show ?thesis unfolding d by blast
qed

end
