(* ===== verification/UnitTests.thy ===== *)
theory UnitTests
  imports CliSamples "HOL-Library.Code_Target_Nat"
begin

text \<open>
  The model against the program's own unit tests: the inputs and expectations of the tests of
  \<open>dns.rs\<close>, \<open>containerfile.rs\<close>, \<open>main.rs\<close>, \<open>vm_rootfs.rs\<close> and the two builder crates, evaluated on
  the definitions by the kernel, each lemma under the name of its test. A test of the host it
  runs on (its resolver, its \<open>PATH\<close>, its processes) or of \<open>clap\<close> alone has no counterpart.
\<close>

fun contains :: "string \<Rightarrow> string \<Rightarrow> bool" where
  "contains [] pat = (pat = [])"
| "contains (c # cs) pat = (case strip_prefix pat (c # cs) of Some _ \<Rightarrow> True | None \<Rightarrow> contains cs pat)"

definition ip :: "string \<Rightarrow> ip_addr" where
  "ip s = the (parse_ip s)"

subsection \<open>\<open>crates/vm-image-builder/src/dns.rs\<close>\<close>

lemma routable_addresses_are_reachable:
  "list_all (\<lambda>a. is_reachable_from_vm (ip a))
     [''192.168.1.254'', ''10.0.0.1'', ''8.8.8.8'', ''1.1.1.1'', ''fd0f:ee:b0::1'', ''2606:4700:4700::1111'']"
  by code_simp

lemma addresses_that_mean_something_else_in_the_guest_are_rejected:
  "list_all (\<lambda>a. parse_ip a \<noteq> None \<and> \<not> is_reachable_from_vm (ip a))
     [''127.0.0.53'', ''127.0.0.1'', ''::1'', ''0.0.0.0'', ''::'', ''169.254.1.1'', ''fe80::1'', ''febf::1'',
      ''224.0.0.1'', ''255.255.255.255'']"
  by code_simp

lemma the_fallback_is_usable: "is_reachable_from_vm FALLBACK_NAMESERVER"
  by code_simp

lemma parse_scutil_reads_every_resolver_in_order:
  "parse_scutil (unlines
     [''DNS configuration'', '''', ''resolver #1'', ''  nameserver[0] : 192.168.1.254'', ''  nameserver[1] : fd0f:ee:b0::1'',
      ''  if_index : 5 (en0)'', ''  flags    : Request A records, Request AAAA records'', '''', ''resolver #2'',
      ''  domain   : local'', ''  options  : mdns'', ''  timeout  : 5'', '''', ''resolver #3'', ''  nameserver[0] : 10.0.0.1''])
   = [ip ''192.168.1.254'', ip ''fd0f:ee:b0::1'', ip ''10.0.0.1'']"
  by code_simp

lemma parse_scutil_ignores_everything_that_is_not_a_nameserver:
  "parse_scutil (unlines [''  if_index : 5 (en0)'', ''  reach : 0x00020002 (Reachable)'', ''  order : 300000'']) = []"
  by code_simp

lemma parse_scutil_handles_empty_output: "parse_scutil '''' = []"
  by code_simp

lemma parse_resolv_conf_reads_nameserver_lines:
  "parse_resolv_conf (unlines
     [''# generated by something'', ''search example.com'', ''nameserver 192.168.1.254'', ''nameserver 8.8.8.8'',
      ''options edns0''])
   = [ip ''192.168.1.254'', ip ''8.8.8.8'']"
  by code_simp

lemma parse_resolv_conf_skips_comments:
  "parse_resolv_conf (unlines [''#nameserver 9.9.9.9'', '';nameserver 9.9.9.10'', ''nameserver 8.8.8.8 # inline''])
   = [ip ''8.8.8.8'']"
  by code_simp

lemma parse_resolv_conf_requires_a_separator_after_the_directive:
  "parse_resolv_conf (unlines [''nameserverX 8.8.8.8'']) = []"
  by code_simp

lemma parse_resolv_conf_ignores_unparseable_addresses:
  "parse_resolv_conf (unlines [''nameserver not-an-address'', ''nameserver 8.8.8.8'']) = [ip ''8.8.8.8'']"
  by code_simp

lemma sanitize_drops_unreachable_addresses:
  "sanitize [ip ''127.0.0.53'', ip ''192.168.1.254'', ip ''fe80::1''] = [ip ''192.168.1.254'']"
  by code_simp

lemma sanitize_deduplicates_while_keeping_order:
  "sanitize [ip ''8.8.8.8'', ip ''1.1.1.1'', ip ''8.8.8.8''] = [ip ''8.8.8.8'', ip ''1.1.1.1'']"
  by code_simp

lemma sanitize_caps_at_the_resolver_limit:
  "sanitize [ip ''1.0.0.1'', ip ''1.0.0.2'', ip ''1.0.0.3'', ip ''1.0.0.4'', ip ''1.0.0.5'']
   = [ip ''1.0.0.1'', ip ''1.0.0.2'', ip ''1.0.0.3'']"
  by code_simp

lemma sanitize_of_nothing_usable_is_empty: "sanitize [ip ''127.0.0.1'', ip ''::1''] = []"
  by code_simp

lemma join_separates_with_spaces:
  "join_addrs [ip ''8.8.8.8'', ip ''fd00::1''] = ''8.8.8.8 fd00::1'' \<and> join_addrs [] = ''''"
  by code_simp

subsection \<open>\<open>src/containerfile.rs\<close>\<close>

lemma arbitrary_image_references_are_preserved:
  "list_all (\<lambda>img. case generate img False of
       Inl _ \<Rightarrow> False
     | Inr text \<Rightarrow> contains text (''FROM '' @ img @ '' AS system'' @ [newline]) \<and> \<not> contains text ''RUN '')
     [''alpine'', ''docker.io/library/alpine:3.24'', ''registry.fedoraproject.org/fedora:latest'',
      ''localhost:5000/project/tools:dev'', ''ghcr.io/example/project@sha256:0123456789abcdef'',
      ''example/project:tag@sha256:0123456789abcdef'']"
  by code_simp

lemma invalid_references_cannot_change_containerfile_instructions:
  "list_all (\<lambda>img. generate img False = Err (InvalidImageReference img) \<and>
       contains (containerfile_error_display (\<lambda>_. True) (InvalidImageReference img)) ''invalid image reference'')
     ['''', '' '', ''alpine AS injected'', ''alpine'' @ [newline] @ ''RUN touch /injected'',
      ''alpine'' @ [carriage_return], ''alpine'' @ [CHR 0x09], ''alpine'' @ [CHR 0x00]]"
  by code_simp

lemma copy_containerfile_is_supported_on_all_base_images:
  "list_all (\<lambda>img. case (generate img True, generate img False) of
       (Inr text, Inr plain) \<Rightarrow>
         contains text ''COPY build-containerfile /tmp/build-containerfile'' \<and>
         contains text (''RUN cp /tmp/build-containerfile '' @ [CHR 0x22] @ ''$HOME/Containerfile'' @ [CHR 0x22]) \<and>
         \<not> contains text ''--chown=sandbox'' \<and> \<not> contains plain ''build-containerfile''
     | _ \<Rightarrow> False)
     [''docker.io/library/ubuntu:24.04'', ''registry.fedoraproject.org/fedora:latest'', ''docker.io/library/alpine:3.24'',
      ''ghcr.io/example/project:dev'']"
  by code_simp

lemma host_ca_certificates_are_not_copied:
  "list_all (\<lambda>img. case generate img False of
       Inl _ \<Rightarrow> False
     | Inr text \<Rightarrow> list_all (\<lambda>pat. \<not> contains text pat)
         [''COPY certs/'', ''system-ca.crt'', ''RUN update-ca-certificates'', ''RUN update-ca-trust''])
     [''docker.io/library/ubuntu:24.04'', ''registry.fedoraproject.org/fedora:latest'',
      ''registry.access.redhat.com/ubi10/ubi:latest'', ''docker.io/library/alpine:3.24'']"
  by code_simp

subsection \<open>\<open>src/main.rs\<close>\<close>

lemma runtime_cli_variants_map_to_their_binaries:
  "map runtime_cli [RuntimePodman, RuntimeDocker, RuntimeMacOsContainer, RuntimeVm]
   = [Some Podman, Some Docker, Some MacOsContainer, None]"
  by code_simp

lemma vm_output_path_replaces_tag_separators:
  "vm_output_path ''myimage:latest'' = ''myimage-latest.tar'' \<and>
   vm_output_path ''ghcr.io/me/app:1.0'' = ''ghcr.io-me-app-1.0.tar''"
  by code_simp

lemma vm_output_path_keeps_a_plain_name: "vm_output_path ''myimage'' = ''myimage.tar''"
  by code_simp

lemma vm_config_uses_defaults_when_unset:
  "case fst (assemble_vm_config able_host (Some ''/tmp/rootfs'') None None [] vm_world) of
     Inl _ \<Rightarrow> False
   | Inr config \<Rightarrow> rootfs config = ''/tmp/rootfs'' \<and> cpus config = DEFAULT_CPUS \<and>
       memory_mib config = DEFAULT_MEMORY_MIB \<and> nameservers config \<noteq> []"
  by code_simp

lemma vm_config_uses_the_given_resources:
  "fst (assemble_vm_config able_host (Some ''/tmp/rootfs'') (Some 8) (Some 16384) [ip ''10.0.0.1'', ip ''10.0.0.2''] vm_world)
   = Ok \<lparr>rootfs = ''/tmp/rootfs'', cpus = 8, memory_mib = 16384, nameservers = [ip ''10.0.0.1'', ip ''10.0.0.2'']\<rparr>"
  by code_simp

lemma vm_nameservers_falls_back_to_the_host_when_unset:
  "case vm_nameservers (h_dns able_host) [] of
     Inl _ \<Rightarrow> False
   | Inr ns \<Rightarrow> ns \<noteq> [] \<and> list_all is_reachable_from_vm ns"
  by code_simp

lemma vm_nameservers_keeps_what_the_user_asked_for_in_order:
  "vm_nameservers (h_dns able_host) [ip ''8.8.8.8'', ip ''192.168.1.254''] = Ok [ip ''8.8.8.8'', ip ''192.168.1.254'']"
  by code_simp

lemma vm_nameservers_rejects_an_address_the_guest_cannot_reach:
  "list_all (\<lambda>addr. case vm_nameservers (h_dns able_host) [ip addr] of
       Inl err \<Rightarrow> contains err addr \<and> contains err ''--vm-dns''
     | Inr _ \<Rightarrow> False)
     [''127.0.0.1'', ''::1'', ''169.254.1.1'']"
  by code_simp

lemma vm_config_rejects_bad_dns_before_resolving_the_rootfs:
  "case assemble_vm_config able_host None None None [ip ''127.0.0.1''] vm_world of
     (Inl err, _) \<Rightarrow> contains err ''--vm-dns''
   | _ \<Rightarrow> False"
  by code_simp

lemma check_vm_flags_accepts_vm_flags_with_vm_runtime:
  "check_vm_flags (sample_cli RuntimeVm
     \<lparr>cli_vm_cpus := Some 4, cli_vm_memory := Some 8192, cli_vm_dns := [ip ''10.0.0.1'']\<rparr>) = Ok ()"
  by code_simp

lemma check_vm_flags_rejects_vm_flags_with_other_runtimes:
  "list_all (\<lambda>(flag, c). case check_vm_flags c of
       Inl err \<Rightarrow> contains err flag \<and> contains err ''--runtime vm''
     | Inr _ \<Rightarrow> False)
     (let c = sample_cli RuntimePodman in
      [(''--vm-rootfs'', c\<lparr>cli_vm_rootfs := Some ''/tmp/rootfs''\<rparr>), (''--vm-output'', c\<lparr>cli_vm_output := Some ''out.tar''\<rparr>),
       (''--vm-cpus'', c\<lparr>cli_vm_cpus := Some 4\<rparr>), (''--vm-memory'', c\<lparr>cli_vm_memory := Some 8192\<rparr>),
       (''--vm-dns'', c\<lparr>cli_vm_dns := [ip ''10.0.0.1'']\<rparr>)])"
  by code_simp

lemma build_summary_names_the_tarball_a_vm_build_wrote:
  "build_summary (SelectedVm vm_selected ''out/myimage-latest.tar'') = Some ''Wrote out/myimage-latest.tar'' \<and>
   build_summary (SelectedCli Podman) = None"
  by code_simp

subsection \<open>A resolver configuration with lines of every kind\<close>

definition sample_conf :: "conf_line list" where
  "sample_conf =
     [CommentLine [] ''# generated'', OtherLine ''ndots 2'', LongerWordLine [] (CHR ''1'') ''0.0.0.9'',
      UnreadableLine [] '' '' ''fe80::1%en0'' [] [],
      NameserverLine [] '' '' (V4 192 168 1 1) '' '' ''; router'']"

lemma sample_conf_text:
  "map render_conf_line sample_conf =
     [''# generated'', ''ndots 2'', ''nameserver10.0.0.9'', ''nameserver fe80::1%en0'', ''nameserver 192.168.1.1 ; router'']"
  by code_simp

lemma parse_resolv_conf_rendered_witness:
  "list_all wf_conf_line sample_conf \<and>
   parse_resolv_conf (unlines (map render_conf_line sample_conf)) = [V4 192 168 1 1]"
proof -
  have o: "other_line ''ndots 2''"
    unfolding other_line_def
    by (intro exI [of _ "[]"] exI [of _ "CHR ''n''"] exI [of _ "''dots 2''"])
      (simp add: blank_def is_ascii_def is_space_char_def is_whitespace_def)
  have p: "parse_ip ''fe80::1%en0'' = None" by code_simp
  have w: "list_all wf_conf_line sample_conf"
    using o p by (simp add: sample_conf_def blank_def is_blank_def comment_def plain_line_def conf_value_def
        is_ascii_def is_space_char_def is_whitespace_def)
  have "List.map_filter conf_line_address sample_conf = [V4 192 168 1 1]"
    by (simp add: sample_conf_def List.map_filter_simps)
  with w parse_resolv_conf_rendered [OF w] show ?thesis by simp
qed

end
