(* ===== verification/BuildTests.thy ===== *)
theory BuildTests
  imports UnitTests
begin

text \<open>
  The unit tests that work on files, in small trees: those of the two builder crates and of \<open>vm_rootfs.rs\<close>,
  each lemma under the name of its test. A runner that captures the request it is handed is one that
  accepts the request only if it is the one expected.
\<close>

definition expecting :: "(vm_build \<Rightarrow> bool) \<Rightarrow> vm_runner" where
  "expecting P =
     \<lparr>runner_run = (\<lambda>b w. (if P b then Ok () else Err (Failed None), w)), runner_check_supported = Ok ()\<rparr>"

definition test_config :: vm_config where
  "test_config = vm_config_new quiet_dns ''/tmp/rootfs''"

text \<open>A temporary directory with a rootfs whose helper has the given mode, and the context.\<close>

definition test_world :: "nat \<Rightarrow> (string \<times> node) list \<Rightarrow> world" where
  "test_world mode context_entries =
     \<lparr>tree = Dir [(''tmp'', Dir [(''rootfs'',
          Dir [(''usr'', Dir [(''local'', Dir [(''bin'', Dir [(''vm-build'', File mode ''#!/bin/sh'')])])])]),
        (''context'', Dir context_entries), (''outside'', File 0x1A4 ''original'')])],
      cwd = [], faults = []\<rparr>"

abbreviation test_build :: "vm_config \<Rightarrow> vm_runner \<Rightarrow> string \<Rightarrow> string \<Rightarrow> (world, vm_build_error, unit) action" where
  "test_build \<equiv> VmImageBuilder.build ''FROM scratch'' ''test:latest''"

definition plain_build :: vm_build where
  "plain_build =
     \<lparr>build_rootfs = ''/rootfs'', build_context = ''/ctx'', output_dir = ''/out'', output_filename = ''image.tar'',
      build_tag = ''test:latest'', build_cpus = 2, build_memory_mib = 4096, build_nameservers = []\<rparr>"

subsection \<open>\<open>crates/vm-image-builder/src/lib.rs\<close>\<close>

lemma vm_config_new_uses_defaults:
  "rootfs test_config = ''/tmp/rootfs'' \<and> cpus test_config = DEFAULT_CPUS \<and>
   memory_mib test_config = DEFAULT_MEMORY_MIB \<and> nameservers test_config \<noteq> [] \<and>
   list_all is_reachable_from_vm (nameservers test_config)"
  by code_simp

lemma check_rootfs_accepts_a_rootfs_with_the_helper: "is_ok (fst (check_rootfs test_config (test_world 0x1ED [])))"
  by code_simp

lemma check_rootfs_rejects_a_missing_directory:
  "case fst (check_rootfs (vm_config_new quiet_dns ''/a/really/improbable/rootfs'') (test_world 0x1ED [])) of
     Inl err \<Rightarrow> contains (vm_error_display err) ''not a directory'' \<and> contains (vm_error_display err) ''make-rootfs.sh''
   | Inr _ \<Rightarrow> False"
  by code_simp

lemma check_rootfs_rejects_a_directory_without_the_helper:
  "case fst (check_rootfs (vm_config_new quiet_dns ''/tmp'') (test_world 0x1ED [])) of
     Inl err \<Rightarrow> contains (vm_error_display err) ''vm-build''
   | Inr _ \<Rightarrow> False"
  by code_simp

lemma check_rootfs_rejects_a_helper_without_the_execute_bit:
  "case fst (check_rootfs test_config (test_world 0x1A4 [])) of
     Inl err \<Rightarrow> contains (vm_error_display err) ''not executable''
   | Inr _ \<Rightarrow> False"
  by code_simp

lemma build_writes_the_containerfile_into_the_context:
  "case test_build test_config accepting_runner ''/tmp/context'' ''/tmp/out.tar'' (test_world 0x1ED []) of
     (Inr _, w) \<Rightarrow> fst (read_to_string ''/tmp/context/Containerfile'' w) = Ok ''FROM scratch''
   | _ \<Rightarrow> False"
  by code_simp

lemma build_refuses_to_follow_a_containerfile_symlink:
  "case test_build test_config accepting_runner ''/tmp/context'' ''/tmp/out.tar''
      (test_world 0x1ED [(''Containerfile'', Symlink ''/tmp/outside'')]) of
     (Inl (PathError _ _ _), w) \<Rightarrow> fst (read_to_string ''/tmp/outside'' w) = Ok ''original''
   | _ \<Rightarrow> False"
  by code_simp

lemma build_resolves_paths_and_splits_the_output:
  "is_ok (fst (test_build test_config (expecting (\<lambda>b.
        build_tag b = ''test:latest'' \<and> output_filename b = ''out.tar'' \<and> build_rootfs b = ''/tmp/rootfs'' \<and>
        build_context b = ''/tmp/context'' \<and> output_dir b = ''/tmp/nested'' \<and>
        build_cpus b = DEFAULT_CPUS \<and> build_memory_mib b = DEFAULT_MEMORY_MIB))
      ''/tmp/context'' ''/tmp/nested/out.tar'' (test_world 0x1ED [])))"
  by code_simp

lemma build_creates_the_output_directory:
  "case test_build test_config accepting_runner ''/tmp'' ''/tmp/a/b/out.tar'' (test_world 0x1ED []) of
     (Inr _, w) \<Rightarrow> dir_at (tree w) [''tmp'', ''a'', ''b'']
   | _ \<Rightarrow> False"
  by code_simp

lemma build_passes_through_cpus_and_memory:
  "is_ok (fst (test_build \<lparr>rootfs = ''/tmp/rootfs'', cpus = 8, memory_mib = 16384, nameservers = [ip ''10.0.0.1'']\<rparr>
      (expecting (\<lambda>b. build_cpus b = 8 \<and> build_memory_mib b = 16384 \<and> build_nameservers b = [ip ''10.0.0.1'']))
      ''/tmp'' ''/tmp/out.tar'' (test_world 0x1ED [])))"
  by code_simp

lemma dns_env_value_is_the_space_separated_list:
  "is_ok (fst (test_build (test_config\<lparr>nameservers := [ip ''192.168.1.254'', ip ''fd0f:ee:b0::1'']\<rparr>)
      (expecting (\<lambda>b. dns_env_value b = Some ''192.168.1.254 fd0f:ee:b0::1'')) ''/tmp'' ''/tmp/out.tar'' (test_world 0x1ED [])))"
  by code_simp

lemma dns_env_value_is_absent_without_nameservers: "dns_env_value plain_build = None"
  by code_simp

lemma build_rejects_an_unusable_rootfs_before_touching_the_context:
  "case test_build (vm_config_new quiet_dns ''/a/really/improbable/rootfs'') accepting_runner ''/tmp/context'' ''/tmp/out.tar''
      (test_world 0x1ED []) of
     (Inl (RootfsError path reason), w) \<Rightarrow>
       contains (vm_error_display (RootfsError path reason)) ''VM rootfs'' \<and>
       lookup (tree w) [''tmp'', ''context'', CONTAINERFILE_NAME] = None
   | _ \<Rightarrow> False"
  by code_simp

lemma build_reports_which_path_failed_to_resolve:
  "case fst (test_build test_config accepting_runner ''/tmp/no/such/context'' ''/tmp/out.tar'' (test_world 0x1ED [])) of
     Inl (PathError what path e) \<Rightarrow> contains (vm_error_display (PathError what path e)) ''build context''
   | _ \<Rightarrow> False"
  by code_simp

lemma build_propagates_runner_errors:
  "fst (test_build test_config \<lparr>runner_run = (\<lambda>b w. (Err (Failed (Some 2)), w)), runner_check_supported = Ok ()\<rparr>
      ''/tmp'' ''/tmp/out.tar'' (test_world 0x1ED [])) = Err (Failed (Some 2))"
  by code_simp

lemma containerfile_vm_path_is_inside_the_context_mount: "containerfile_vm_path plain_build = ''/build/context/Containerfile''"
  by code_simp

lemma output_path_joins_dir_and_filename: "output_path plain_build = ''/out/image.tar''"
  by code_simp

lemma check_single_threaded_rejects_a_threaded_process:
  "check_single_threaded True 96 \<lparr>pid_ret = 96, pti_threadnum = 7, pid_errno = not_found\<rparr> = Err (MultiThreaded 7) \<and>
   contains (vm_error_display (MultiThreaded 7)) ''7 threads'' \<and>
   contains (vm_error_display (MultiThreaded 7)) ''single-threaded''"
  by code_simp

lemma krun_runner_reports_unsupported_without_the_feature:
  "list_all (\<lambda>t. \<not> libkrun_available t \<longrightarrow>
      (case run_without_libkrun t of
         Some (Inl (Unsupported reason)) \<Rightarrow> contains (vm_error_display (Unsupported reason)) ''not available''
       | _ \<Rightarrow> False))
     [\<lparr>feature_krun = k, os_macos = m, arch_aarch64 = a\<rparr>. k \<leftarrow> [True, False], m \<leftarrow> [True, False], a \<leftarrow> [True, False]]"
  by code_simp

lemma vm_build_error_display:
  "vm_error_display (Io (IoError NotFound ''file not found'')) = ''I/O error: file not found'' \<and>
   contains (vm_error_display (Krun ''krun_create_ctx'' (- 22))) ''krun_create_ctx'' \<and>
   contains (vm_error_display (Krun ''krun_create_ctx'' (- 22))) ''-22'' \<and>
   vm_error_display (Failed (Some 1)) = ''VM build failed with exit code 1'' \<and>
   vm_error_display (Failed None) = ''VM build was terminated by a signal''"
  by code_simp

subsection \<open>\<open>crates/container-image-builder/src/lib.rs\<close>\<close>

lemma container_cli_binary_names: "map binary [Podman, Docker, MacOsContainer] = [''podman'', ''docker'', ''container'']"
  by code_simp

lemma runtime_not_found_error_display_names_binary:
  "contains (not_found_display (RuntimeNotFound ''podman'')) ''podman'' \<and>
   contains (not_found_display (RuntimeNotFound ''podman'')) ''PATH''"
  by code_simp

abbreviation test_container_build :: "container_cli \<Rightarrow> runner \<Rightarrow> (build_error, unit) result" where
  "test_container_build cli r \<equiv> fst (container_build sample_tempfiles ''FROM scratch'' ''test:latest'' cli r ''.'' tmp_world)"

lemma build_succeeds:
  "list_all (\<lambda>cli. is_ok (test_container_build cli (fake_runner (Exit_code 0)))) [Podman, Docker, MacOsContainer]"
  by code_simp

lemma build_fails_with_exit_code: "test_container_build Podman (fake_runner (Exit_code 1)) = Err (BuildFailed (Some 1))"
  by code_simp

lemma build_propagates_io_error: "test_container_build Podman (\<lambda>cmd w. (Err not_found, w)) = Err (BuildIo not_found)"
  by code_simp

lemma build_signal_killed: "test_container_build Podman (fake_runner (Killed_by 9)) = Err (BuildFailed None)"
  by code_simp

lemma container_build_error_display:
  "build_error_display (BuildIo (IoError NotFound ''file not found'')) = ''I/O error: file not found'' \<and>
   build_error_display (BuildFailed (Some 1)) = ''container build failed with exit code 1'' \<and>
   build_error_display (BuildFailed None) = ''container build was terminated by a signal''"
  by code_simp

subsection \<open>\<open>src/vm_rootfs.rs\<close>\<close>

text \<open>An archive is the helper it holds, unpacked as \<open>tar\<close> does where nothing is in the way.\<close>

definition test_unpackers :: unpackers where
  "test_unpackers =
     \<lparr>zstd_decoder = (\<lambda>a. Ok ()),
      tar_unpack = (\<lambda>a p w.
        (case resolve w p of
           Inl e \<Rightarrow> (Err e, w)
         | Inr q \<Rightarrow>
             if a = ''cut'' then (Err (IoError InvalidData ''unexpected end of file''), w)
             else (Ok (), w\<lparr>tree := insert_at (q @ [''usr''])
               (Dir [(''local'', Dir [(''bin'', Dir [(''vm-build'', File 0x1ED a)])])]) (tree w)\<rparr>)))\<rparr>"

abbreviation test_install :: "string \<Rightarrow> string \<Rightarrow> (world, string, string) action" where
  "test_install archive digest \<equiv> install test_unpackers quiet_dns 7 archive digest ''/cache''"

definition empty_cache :: "(string \<times> node) list \<Rightarrow> world" where
  "empty_cache es = \<lparr>tree = Dir [(''cache'', Dir es)], cwd = [], faults = []\<rparr>"

lemma install_unpacks_the_archive:
  "case test_install ''#!/bin/sh'' ''a1'' (empty_cache []) of
     (Inr dir, w) \<Rightarrow> fst (read_to_string (join dir ''usr/local/bin/vm-build'') w) = Ok ''#!/bin/sh'' \<and>
       is_ok (fst (check_rootfs (vm_config_new quiet_dns dir) w))
   | _ \<Rightarrow> False"
  by code_simp

lemma install_reuses_an_already_extracted_rootfs:
  "case test_install ''#!/bin/sh'' ''a1'' (empty_cache []) of
     (Inr dir, w) \<Rightarrow>
       (case fs_write (join dir ''sentinel'') ''kept'' w of
          (_, w1) \<Rightarrow>
            (case test_install ''#!/bin/sh'' ''a1'' w1 of
               (Inr again, w2) \<Rightarrow> again = dir \<and> fst (path_exists (join dir ''sentinel'') w2)
             | _ \<Rightarrow> False))
   | _ \<Rightarrow> False"
  by code_simp

lemma install_replaces_a_rootfs_from_another_archive:
  "case test_install ''#!/bin/sh'' ''a1'' (empty_cache []) of
     (Inr dir, w) \<Rightarrow>
       (case fs_write (join dir ''sentinel'') ''stale'' w of
          (_, w1) \<Rightarrow>
            (case test_install ''#!/bin/sh # newer'' ''b2'' w1 of
               (Inr again, w2) \<Rightarrow> fst (read_to_string (join again ''usr/local/bin/vm-build'') w2) = Ok ''#!/bin/sh # newer'' \<and>
                 \<not> fst (path_exists (join again ''sentinel'') w2)
             | _ \<Rightarrow> False))
   | _ \<Rightarrow> False"
  by code_simp

lemma install_re_extracts_when_the_rootfs_was_damaged:
  "case test_install ''#!/bin/sh'' ''a1'' (empty_cache []) of
     (Inr dir, w) \<Rightarrow>
       (case test_install ''#!/bin/sh'' ''a1''
           (w\<lparr>tree := remove_at [''cache'', VERSION, ''usr'', ''local'', ''bin'', ''vm-build''] (tree w)\<rparr>) of
          (Inr again, w2) \<Rightarrow> is_ok (fst (check_rootfs (vm_config_new quiet_dns again) w2))
        | _ \<Rightarrow> False)
   | _ \<Rightarrow> False"
  by code_simp

lemma install_sweeps_other_versions:
  "case test_install ''#!/bin/sh'' ''a1'' (empty_cache [(''0.0.1-old'', Dir [])]) of
     (Inr _, w) \<Rightarrow> \<not> fst (path_exists ''/cache/0.0.1-old'' w)
   | _ \<Rightarrow> False"
  by code_simp

lemma install_leaves_another_process_staging_directory_alone:
  "case test_install ''#!/bin/sh'' ''a1'' (empty_cache [(staging_name 8, Dir [])]) of
     (Inr _, w) \<Rightarrow> fst (path_exists (join ''/cache'' (staging_name 8)) w)
   | _ \<Rightarrow> False"
  by code_simp

lemma install_without_an_embedded_archive_points_at_the_flag:
  "case fst (test_install '''' '''' (empty_cache [])) of Inl err \<Rightarrow> contains err ''--vm-rootfs'' | Inr _ \<Rightarrow> False"
  by code_simp

lemma install_leaves_nothing_behind_when_the_archive_is_corrupt:
  "case test_install ''cut'' ''c3'' (empty_cache []) of
     (Inl err, w) \<Rightarrow> contains err ''VM rootfs'' \<and> lookup (tree w) [''cache''] = Some (Dir [])
   | _ \<Rightarrow> False"
  by code_simp

lemma cache_key_covers_the_version_and_the_digest: "cache_key (''  abc123'' @ [newline]) = VERSION @ ''-abc123''"
  by code_simp

lemma marker_matches_only_the_recorded_key:
  "let w = empty_cache [(MARKER, File 0x1A4 (''1.0.0-abc'' @ [newline]))] in
     fst (marker_matches ''/cache'' ''1.0.0-abc'' w) \<and> \<not> fst (marker_matches ''/cache'' ''1.0.0-def'' w) \<and>
     \<not> fst (marker_matches ''/cache'' ''1.0.0-abc'' (empty_cache []))"
  by code_simp

subsection \<open>\<open>src/main.rs\<close>, the tests that build\<close>

abbreviation test_run :: "string \<Rightarrow> bool \<Rightarrow> backend \<Rightarrow> (world, run_error, unit) action" where
  "test_run \<equiv> run sample_tempfiles ''test:latest''"

text \<open>A tool that succeeds only if the Containerfile it is given and the one staged pass a test.\<close>

definition checking_runner :: "(string \<Rightarrow> (io_error, string) result \<Rightarrow> bool) \<Rightarrow> runner" where
  "checking_runner P cmd w =
     (case fst (read_to_string (arguments cmd ! 2) w) of
        Inl e \<Rightarrow> (Err e, w)
      | Inr used \<Rightarrow>
          (let staged = fst (read_to_string (join (last (arguments cmd)) BUILD_CONTAINERFILE) w)
           in (Ok (Exit_code (if P used staged then 0 else 1)), w)))"

lemma run_passes_project_image_to_cli_backend:
  "is_ok (fst (test_run ''localhost:5000/project/tools:dev'' False
     (BackendCli Podman (checking_runner (\<lambda>used staged.
        contains used ''FROM localhost:5000/project/tools:dev AS system'' \<and> \<not> contains used ''COPY certs/''))) tmp_world))"
  by code_simp

lemma run_stages_exact_build_containerfile_only_when_requested:
  "list_all (\<lambda>enabled. is_ok (fst (test_run ''ghcr.io/example/project:dev'' enabled
     (BackendCli Podman (checking_runner (\<lambda>used staged.
        if enabled then staged = Ok used \<and> contains used ''COPY build-containerfile /tmp/build-containerfile''
        else \<not> is_ok staged \<and> \<not> contains used ''build-containerfile''))) tmp_world))) [False, True]"
  by code_simp

lemma run_returns_error_when_runner_fails:
  "fst (test_run ''ghcr.io/example/project:dev'' False (BackendCli Podman (fake_runner (Exit_code 1))) tmp_world)
   = Err (RunBuild (BuildFailed (Some 1)))"
  by code_simp

text \<open>The VM reads the Containerfile through the context, before \<open>run\<close> removes it.\<close>

definition reading_vm_runner :: "(vm_build \<Rightarrow> string \<Rightarrow> bool) \<Rightarrow> vm_runner" where
  "reading_vm_runner P =
     \<lparr>runner_run = (\<lambda>b w. (case fst (read_to_string (join (build_context b) CONTAINERFILE_NAME) w) of
        Inl e \<Rightarrow> Err (Io e)
      | Inr t \<Rightarrow> if P b t then Ok () else Err (Failed None), w)),
      runner_check_supported = Ok ()\<rparr>"

lemma run_with_vm_backend_succeeds:
  "is_ok (fst (test_run ''ghcr.io/example/project:dev'' False
     (BackendVm test_config (reading_vm_runner (\<lambda>b t.
        build_tag b = ''test:latest'' \<and> output_filename b = ''test-latest.tar'')) ''/tmp/test-latest.tar'')
     (test_world 0x1ED [])))"
  by code_simp

lemma run_with_vm_backend_passes_the_generated_containerfile:
  "is_ok (fst (test_run ''ghcr.io/example/project:dev'' True
     (BackendVm test_config (reading_vm_runner (\<lambda>b t.
        contains t (''RUN cp /tmp/build-containerfile '' @ [CHR 0x22] @ ''$HOME/Containerfile'' @ [CHR 0x22]) \<and>
        contains t ''FROM ghcr.io/example/project:dev AS system'')) ''/tmp/out.tar'')
     (test_world 0x1ED [])))"
  by code_simp

lemma run_with_vm_backend_propagates_errors:
  "fst (test_run ''ghcr.io/example/project:dev'' False
     (BackendVm test_config \<lparr>runner_run = (\<lambda>b w. (Err (Failed (Some 2)), w)), runner_check_supported = Ok ()\<rparr>
       ''/tmp/out.tar'') (test_world 0x1ED [])) = Err (RunVm (Failed (Some 2)))"
  by code_simp

definition test_cli :: cli where
  "test_cli = (sample_cli RuntimeVm)\<lparr>cli_tag := ''myimage:latest'', cli_vm_rootfs := Some ''/tmp/rootfs''\<rparr>"

lemma select_runtime_vm_checks_vm_support_before_the_rootfs:
  "is_ok (fst (select_runtime able_host test_cli (test_world 0x1ED []))) \<and>
   list_all (\<lambda>t. case krun_check_supported t of
        Inl e \<Rightarrow> fst (select_runtime (able_host\<lparr>h_target := t\<rparr>) test_cli (test_world 0x1ED [])) = Err (vm_error_display e)
      | Inr _ \<Rightarrow> libkrun_available t)
     [\<lparr>feature_krun = k, os_macos = m, arch_aarch64 = True\<rparr>. k \<leftarrow> [True, False], m \<leftarrow> [True, False]]"
  by code_simp

lemma select_runtime_vm_resolves_config_and_output:
  "case fst (select_vm able_host (test_cli\<lparr>cli_vm_cpus := Some 4, cli_vm_memory := Some 8192\<rparr>) (test_world 0x1ED [])) of
     Inr (SelectedVm config out) \<Rightarrow>
       rootfs config = ''/tmp/rootfs'' \<and> cpus config = 4 \<and> memory_mib config = 8192 \<and> out = ''myimage-latest.tar''
   | _ \<Rightarrow> False"
  by code_simp

lemma select_runtime_vm_honours_the_output_flag:
  "case fst (select_vm able_host (test_cli\<lparr>cli_vm_output := Some ''/tmp/custom.tar''\<rparr>) (test_world 0x1ED [])) of
     Inr (SelectedVm config out) \<Rightarrow> out = ''/tmp/custom.tar''
   | _ \<Rightarrow> False"
  by code_simp

lemma select_runtime_vm_rejects_an_unusable_rootfs:
  "case fst (select_vm able_host (test_cli\<lparr>cli_vm_rootfs := Some ''/tmp/no-such-rootfs''\<rparr>) (test_world 0x1ED [])) of
     Inl err \<Rightarrow> contains err ''no-such-rootfs''
   | _ \<Rightarrow> False"
  by code_simp

lemma select_runtime_cli_takes_the_container_cli_arm:
  "list_all (\<lambda>there. case fst (select_runtime (able_host\<lparr>h_which := (\<lambda>_. there)\<rparr>) (sample_cli RuntimePodman) tmp_world) of
       Inl err \<Rightarrow> \<not> there \<and> contains err ''podman''
     | Inr s \<Rightarrow> there) [True, False]"
  by code_simp

lemma backend_for_maps_each_selection_to_its_backend:
  "(case backend_for able_host (SelectedVm test_config ''/tmp/out.tar'') of
      BackendVm config _ out \<Rightarrow> config = test_config \<and> out = ''/tmp/out.tar'' | _ \<Rightarrow> False) \<and>
   (case backend_for able_host (SelectedCli Docker) of BackendCli cli _ \<Rightarrow> cli = Docker | _ \<Rightarrow> False)"
  by code_simp

end
