(* ===== verification/BuildScript.thy ===== *)
theory BuildScript
  imports VmRootfs
begin

text \<open>
  \<open>build.rs\<close>: what embeds the VM rootfs in the binary. The environment, the \<open>zstd\<close> crate (its
  encoder at the level the script asks for, and its decoder read to the end) and the digest of
  the \<open>sha2\<close> crate are arguments. A panic is an error whose value is the message; the lines for
  cargo are part of the result.
\<close>

record build_env =
  env_out_dir :: "(string, string) result"
  env_archive :: "string option"

record codecs =
  zstd_encode_all :: "nat \<Rightarrow> string \<Rightarrow> (io_error, string) result"
  zstd_decode_all :: "string \<Rightarrow> (io_error, string) result"
  sha256 :: "string \<Rightarrow> string"

definition ARCHIVE_ENV :: string where
  "ARCHIVE_ENV = ''OPENSHELL_BUILD_IMAGE_VM_ROOTFS_ARCHIVE''"

definition ARCHIVE_OUT :: string where
  "ARCHIVE_OUT = ''vm-rootfs.tar.zst''"

definition DIGEST_OUT :: string where
  "DIGEST_OUT = ''vm-rootfs.sha256''"

definition ZSTD_MAGIC :: string where
  "ZSTD_MAGIC = [CHR 0x28, CHR 0xB5, CHR 0x2F, CHR 0xFD]"

definition COMPRESSION_LEVEL :: nat where
  "COMPRESSION_LEVEL = 12"

subsection \<open>The digest in hexadecimal\<close>

text \<open>A byte formatted with \<open>02x\<close>.\<close>

definition fmt_02x :: "nat \<Rightarrow> string" where
  "fmt_02x n = replicate (2 - length (fmt_hex n)) CHR ''0'' @ fmt_hex n"

definition hex :: "string \<Rightarrow> string" where
  "hex bytes = fold (\<lambda>b out. out @ fmt_02x (byte b)) bytes []"

subsection \<open>Checking the archive\<close>

definition compress :: "codecs \<Rightarrow> string \<Rightarrow> string \<Rightarrow> (string, string) result" where
  "compress z contents archive =
     (case zstd_encode_all z COMPRESSION_LEVEL contents of
        Inl e \<Rightarrow> Err (''compress '' @ to_string_lossy archive @ '': '' @ io_display e)
      | Inr compressed \<Rightarrow>
          (case zstd_decode_all z compressed of
             Inl e \<Rightarrow> Err (''verify compressed '' @ to_string_lossy archive @ '': '' @ io_display e)
           | Inr roundtrip \<Rightarrow>
               if roundtrip = contents then Ok compressed
               else Err (''compressed '' @ to_string_lossy archive
                 @ '' does not decompress to the original bytes'')))"

definition verify_frame :: "codecs \<Rightarrow> string \<Rightarrow> string \<Rightarrow> (string, unit) result" where
  "verify_frame z contents archive =
     (case zstd_decode_all z contents of
        Inl e \<Rightarrow> Err (''verify compressed '' @ to_string_lossy archive @ '': '' @ io_display e)
      | Inr decoded \<Rightarrow>
          if decoded \<noteq> [] then Ok ()
          else Err (''compressed '' @ to_string_lossy archive @ '' decompresses to nothing''))"

subsection \<open>Writing what is embedded\<close>

definition write_out :: "string \<Rightarrow> string \<Rightarrow> string \<Rightarrow> (world, string, unit) action" where
  "write_out out_dir name data w =
     (case fs_write (join out_dir name) data w of
        (Inl e, w1) \<Rightarrow> (Err (''write '' @ name @ '': '' @ io_display e), w1)
      | (Inr _, w1) \<Rightarrow> (Ok (), w1))"

definition write_placeholders :: "string \<Rightarrow> (world, string, unit) action" where
  "write_placeholders out_dir w =
     (case write_out out_dir ARCHIVE_OUT [] w of
        (Inl e, w1) \<Rightarrow> (Err e, w1)
      | (Inr _, w1) \<Rightarrow> write_out out_dir DIGEST_OUT [] w1)"

definition fs_read :: "string \<Rightarrow> (world, io_error, string) action" where
  "fs_read p w =
     (case next_fault w of
        (Some f, w1) \<Rightarrow> (Err (fault_error f), w1)
      | (None, w1) \<Rightarrow>
          (case stat w1 p of
             Inl e \<Rightarrow> (Err e, w1)
           | Inr (File m content) \<Rightarrow> (Ok content, w1)
           | Inr _ \<Rightarrow> (Err is_a_directory, w1)))"

text \<open>The part of \<open>main\<close> with an archive: what is embedded and its digest.\<close>

definition embedded_bytes :: "codecs \<Rightarrow> string \<Rightarrow> string \<Rightarrow> (string, string) result" where
  "embedded_bytes z contents archive =
     (if contents = [] then Err (ARCHIVE_ENV @ '' is empty: '' @ to_string_lossy archive)
      else if starts_with contents ZSTD_MAGIC then
        (case verify_frame z contents archive of Inl e \<Rightarrow> Err e | Inr _ \<Rightarrow> Ok contents)
      else compress z contents archive)"

definition stage_archive :: "codecs \<Rightarrow> string \<Rightarrow> string \<Rightarrow> (world, string, string) action" where
  "stage_archive z out_dir archive w =
     (case fs_read archive w of
        (Inl e, w1) \<Rightarrow>
          (Err (''read '' @ ARCHIVE_ENV @ '' ('' @ to_string_lossy archive @ ''): '' @ io_display e), w1)
      | (Inr contents, w1) \<Rightarrow>
          (case embedded_bytes z contents archive of
             Inl e \<Rightarrow> (Err e, w1)
           | Inr compressed \<Rightarrow>
               (let digest = hex (sha256 z compressed) in
                case write_out out_dir ARCHIVE_OUT compressed w1 of
                  (Inl e, w2) \<Rightarrow> (Err e, w2)
                | (Inr _, w2) \<Rightarrow>
                    (case write_out out_dir DIGEST_OUT digest w2 of
                       (Inl e, w3) \<Rightarrow> (Err e, w3)
                     | (Inr _, w3) \<Rightarrow>
                         (Ok (''cargo:warning=Embedded VM rootfs: '' @ fmt_dec (length compressed)
                            @ '' bytes ('' @ digest @ '')''), w3)))))"

definition build_main :: "build_env \<Rightarrow> codecs \<Rightarrow> world \<Rightarrow> string list \<times> (string, unit) result \<times> world" where
  "build_main env z w =
     (let rerun = ''cargo:rerun-if-env-changed='' @ ARCHIVE_ENV in
      case env_out_dir env of
        Inl e \<Rightarrow> ([rerun], Err (''OUT_DIR not set: '' @ e), w)
      | Inr out_dir \<Rightarrow>
          (case env_archive env of
             None \<Rightarrow>
               ([rerun,
                 ''cargo:warning='' @ ARCHIVE_ENV @ '' not set: building without an embedded VM rootfs'',
                 ''cargo:warning=Build one with crates/vm-image-builder/vm-image/make-rootfs.sh, or pass --vm-rootfs at run time''],
                write_placeholders out_dir w)
           | Some archive \<Rightarrow>
               (let started = [rerun, ''cargo:rerun-if-changed='' @ to_string_lossy archive] in
                case stage_archive z out_dir archive w of
                  (Inl e, w1) \<Rightarrow> (started, Err e, w1)
                | (Inr line, w1) \<Rightarrow> (started @ [line], Ok (), w1))))"


subsection \<open>The digits\<close>

lemma fmt_02x_digits:
  assumes "n < 256"
  shows "fmt_02x n = [digit_char (n div 16), digit_char (n mod 16)]"
proof (cases "n < 16")
  case True
  moreover have "digit_char 0 = CHR ''0''" by (simp add: digit_char_def char_of_eq_iff)
  ultimately show ?thesis by (simp add: fmt_02x_def fmt_radix.simps [of 16 n])
next
  case False
  moreover have "n div 16 < 16" using assms by simp
  ultimately show ?thesis by (simp add: fmt_02x_def fmt_radix.simps [of 16 n] fmt_radix.simps [of 16 "n div 16"])
qed

lemma hex_concat: "hex bytes = concat (map (\<lambda>b. fmt_02x (byte b)) bytes)"
proof -
  have "fold (\<lambda>b out. out @ fmt_02x (byte b)) bytes acc = acc @ concat (map (\<lambda>b. fmt_02x (byte b)) bytes)"
    for acc
    by (induction bytes arbitrary: acc) simp_all
  then show ?thesis by (simp add: hex_def)
qed

lemma byte_lt: "byte b < 256"
  by (cases b) (simp add: of_char_def horner_sum_of_bool_2_less [of "[_,_,_,_,_,_,_,_]", simplified])

lemma hex_Cons: "hex (b # bs) = digit_char (byte b div 16) # digit_char (byte b mod 16) # hex bs"
  using fmt_02x_digits [of "byte b"] byte_lt by (simp add: hex_concat)

lemma hex_Nil: "hex [] = []"
  by (simp add: hex_def)

definition hex_digit :: "char \<Rightarrow> bool" where
  "hex_digit c = (48 \<le> byte c \<and> byte c \<le> 57 \<or> 97 \<le> byte c \<and> byte c \<le> 102)"

text \<open>What the digits stand for, two for each byte.\<close>

fun unhex :: "string \<Rightarrow> string option" where
  "unhex [] = Some []"
| "unhex [c] = None"
| "unhex (a # b # s) =
     (case (to_digit 16 a, to_digit 16 b, unhex s) of
        (Some h, Some l, Some bs) \<Rightarrow> Some (char_of (16 * h + l) # bs)
      | _ \<Rightarrow> None)"

lemma digit_char_hex_digit: "d < 16 \<Longrightarrow> hex_digit (digit_char d)"
  by (auto simp: hex_digit_def byte_digit_char)

lemma nibbles [simp]: "byte b div 16 < 16"
  by (rule less_mult_imp_div_less) (use byte_lt [of b] in simp)

lemma unhex_hex: "unhex (hex bytes) = Some bytes"
  by (induction bytes) (simp_all add: hex_Nil hex_Cons to_digit_digit_char)

lemma hex_digits: "list_all hex_digit (hex bytes)"
  by (induction bytes) (simp_all add: hex_Nil hex_Cons digit_char_hex_digit)

text \<open>\<open>hex\<close> writes two lower case hexadecimal digits for each byte, from which the bytes can be
  read back.\<close>
lemma hex_roundtrip:
  "unhex (hex bytes) = Some bytes \<and> length (hex bytes) = 2 * length bytes \<and> list_all hex_digit (hex bytes)"
proof (intro conjI)
  show "length (hex bytes) = 2 * length bytes" by (induction bytes) (simp_all add: hex_Nil hex_Cons)
qed (rule unhex_hex hex_digits)+

lemma hex_digit_plain: "hex_digit c \<Longrightarrow> is_ascii c \<and> \<not> is_space_char c"
  by (auto simp: hex_digit_def is_ascii_def is_space_char_def is_whitespace_def)

interpretation hex: solid hex unhex
proof unfold_locales
  fix bytes c
  show "ascii (hex bytes)"
    using hex_digits [of bytes] hex_digit_plain by (auto simp: ascii_def list_all_iff)
  show "c \<in> set (hex bytes) \<Longrightarrow> \<not> is_space_char c"
    using hex_digits [of bytes] hex_digit_plain by (auto simp: list_all_iff)
qed (rule unhex_hex)

text \<open>Two builds share a cache key exactly when their archives have the same digest.\<close>
lemma cache_key_by_digest:
  "cache_key (hex a) = cache_key (hex b) \<longleftrightarrow> a = b"
  by (simp add: cache_key_def hex.trim_shown hex.show_inject)


subsection \<open>What is embedded\<close>

lemma embedded_bytes_Ok:
  assumes "embedded_bytes z contents archive = Ok bytes"
  shows "\<exists>plain. zstd_decode_all z bytes = Ok plain \<and> plain \<noteq> [] \<and>
    (if starts_with contents ZSTD_MAGIC then bytes = contents else plain = contents)"
  using assms
  by (auto simp: embedded_bytes_def verify_frame_def compress_def split: sum.splits if_splits)

lemma fs_read_file:
  assumes "fs_read p w = (Inr c, w1)"
  shows "(\<exists>m. stat w p = Ok (File m c)) \<and> same_files w w1"
proof -
  obtain f w2 where f: "next_fault w = (f, w2)" by fastforce
  then have "tree w2 = tree w" "cwd w2 = cwd w" by (simp_all add: next_faultD)
  with assms f show ?thesis
    by (auto simp: fs_read_def same_files_def split: option.splits sum.splits node.splits)
qed

lemma plain_outs [simp]: "plain_name ARCHIVE_OUT" "plain_name DIGEST_OUT"
  by code_simp+

lemma write_out_Ok:
  assumes "write_out out_dir name data w = (Inr (), w')" "reaches out_dir q" "direct (tree w) q"
    "plain_name name" "no_link (tree w) (q @ [name])"
  shows "touched q name w w'" "\<exists>m. lookup (tree w') (q @ [name]) = Some (File m data)"
proof -
  have "fs_write (join out_dir name) data w = (Inr (), w')"
    using assms(1) by (auto simp: write_out_def split: sum.splits prod.splits)
  from fs_write_direct [OF this reaches_join [OF assms(2,4)] assms(3,5)]
  show "touched q name w w'" "\<exists>m. lookup (tree w') (q @ [name]) = Some (File m data)" by simp_all
qed

text \<open>Where the script writes: a directory reached without links, in which neither output is one.\<close>

definition plain_out :: "string \<Rightarrow> string list \<Rightarrow> world \<Rightarrow> bool" where
  "plain_out out_dir q w =
     (reaches out_dir q \<and> direct (tree w) q \<and>
      no_link (tree w) (q @ [ARCHIVE_OUT]) \<and> no_link (tree w) (q @ [DIGEST_OUT]))"

definition embeds :: "world \<Rightarrow> string list \<Rightarrow> string \<Rightarrow> string \<Rightarrow> bool" where
  "embeds w q bytes digest =
     ((\<exists>m. lookup (tree w) (q @ [ARCHIVE_OUT]) = Some (File m bytes)) \<and>
      (\<exists>m. lookup (tree w) (q @ [DIGEST_OUT]) = Some (File m digest)))"

lemma write_both:
  assumes "write_out out_dir ARCHIVE_OUT bytes w = (Inr (), w1)"
    "write_out out_dir DIGEST_OUT digest w1 = (Inr (), w2)" "plain_out out_dir q w"
  shows "embeds w2 q bytes digest"
proof -
  have q: "reaches out_dir q" "direct (tree w) q" using assms(3) by (simp_all add: plain_out_def)
  have 1: "touched q ARCHIVE_OUT w w1" "\<exists>m. lookup (tree w1) (q @ [ARCHIVE_OUT]) = Some (File m bytes)"
    using write_out_Ok [OF assms(1) q] assms(3) by (simp_all add: plain_out_def)
  have ne: "ARCHIVE_OUT \<noteq> DIGEST_OUT" by code_simp
  have "no_link (tree w1) (q @ [DIGEST_OUT])"
    using touched_beside [OF 1(1), of DIGEST_OUT "[]"] ne assms(3) by (simp add: plain_out_def no_link_def)
  then have 2: "touched q DIGEST_OUT w1 w2" "\<exists>m. lookup (tree w2) (q @ [DIGEST_OUT]) = Some (File m digest)"
    using write_out_Ok [OF assms(2) q(1) touched_direct [OF 1(1) q(2)]] by simp_all
  have "lookup (tree w2) (q @ [ARCHIVE_OUT]) = lookup (tree w1) (q @ [ARCHIVE_OUT])"
    using touched_beside [OF 2(1), of ARCHIVE_OUT "[]"] ne by simp
  with 1 2 show ?thesis by (simp add: embeds_def)
qed

lemma build_embedded:
  assumes "build_main env z w = (out, Ok (), w')" "env_out_dir env = Ok out_dir"
    "env_archive env = Some archive" "plain_out out_dir q w"
  shows "\<exists>m contents bytes plain. stat w archive = Ok (File m contents) \<and>
    embeds w' q bytes (hex (sha256 z bytes)) \<and> zstd_decode_all z bytes = Ok plain \<and> plain \<noteq> [] \<and>
    (if starts_with contents ZSTD_MAGIC then bytes = contents else plain = contents)"
proof -
  obtain line where st: "stage_archive z out_dir archive w = (Inr line, w')"
    using assms(1,2,3) by (auto simp: build_main_def Let_def split: sum.splits prod.splits)
  then obtain contents w1 where r: "fs_read archive w = (Inr contents, w1)"
    by (auto simp: stage_archive_def split: sum.splits prod.splits)
  with st obtain bytes where b: "embedded_bytes z contents archive = Inr bytes"
    by (auto simp: stage_archive_def split: sum.splits prod.splits)
  with st r obtain w2 where
    "write_out out_dir ARCHIVE_OUT bytes w1 = (Inr (), w2)"
    "write_out out_dir DIGEST_OUT (hex (sha256 z bytes)) w2 = (Inr (), w')"
    by (auto simp: stage_archive_def Let_def split: sum.splits prod.splits)
  moreover have "plain_out out_dir q w1"
    using assms(4) fs_read_file [OF r] by (simp add: plain_out_def same_files_def)
  ultimately have "embeds w' q bytes (hex (sha256 z bytes))" by (rule write_both)
  with fs_read_file [OF r] embedded_bytes_Ok [OF b] show ?thesis by blast
qed

text \<open>C35. A build script that ends well with an archive has embedded bytes that decode in whole to
  something: to the archive itself where the script compressed it, and unchanged where the archive
  came compressed. The digest beside them is that of the embedded bytes.\<close>
theorem build_embeds_checked_archive:
  assumes "build_main env z w = (out, Ok (), w')" "env_out_dir env = Ok out_dir"
    "env_archive env = Some archive" "plain_out out_dir q w"
  shows "\<exists>m contents bytes plain. stat w archive = Ok (File m contents) \<and>
    embeds w' q bytes (hex (sha256 z bytes)) \<and> zstd_decode_all z bytes = Ok plain \<and> plain \<noteq> [] \<and>
    (if starts_with contents ZSTD_MAGIC then bytes = contents else plain = contents)"
  using assms by (rule build_embedded)

text \<open>Without an archive the script still ends well unless a file cannot be written, and what it
  leaves to embed is nothing: a program built from it refuses to install a rootfs and leaves the
  cache as it is.\<close>
lemma build_without_archive:
  assumes "build_main env z w = (out, Ok (), w')" "env_out_dir env = Ok out_dir"
    "env_archive env = None" "plain_out out_dir q w"
  shows "embeds w' q [] [] \<and>
    (\<forall>bytes digest U dns pid root v. embeds w' q bytes digest \<longrightarrow>
       install U dns pid bytes digest root v = (Err NOT_EMBEDDED, v))"
proof -
  obtain w1 where "write_out out_dir ARCHIVE_OUT [] w = (Inr (), w1)" "write_out out_dir DIGEST_OUT [] w1 = (Inr (), w')"
    using assms(1,2,3)
    by (auto simp: build_main_def write_placeholders_def Let_def split: sum.splits prod.splits)
  from write_both [OF this assms(4)] have "embeds w' q [] []" .
  then show ?thesis by (auto simp: install_def embeds_def)
qed


text \<open>An archive that is empty, or that is a zstd frame which does not decode or decodes to nothing,
  stops the build before any file is written.\<close>
lemma build_rejects_bad_archive:
  assumes "env_out_dir env = Ok out_dir" "env_archive env = Some archive"
    "stat w archive = Ok (File m contents)"
    "contents = [] \<or> starts_with contents ZSTD_MAGIC \<and> (\<forall>plain. zstd_decode_all z contents = Ok plain \<longrightarrow> plain = [])"
  shows "\<exists>out e w'. build_main env z w = (out, Err e, w') \<and> same_files w w'"
proof -
  have bad: "\<exists>e. embedded_bytes z contents archive = Inl e"
    using assms(4) by (auto simp: embedded_bytes_def verify_frame_def split: sum.split)
  obtain f w1 where f: "next_fault w = (f, w1)" by fastforce
  have w1: "tree w1 = tree w" "cwd w1 = cwd w" using next_faultD [OF f] by simp_all
  have "\<exists>e. stage_archive z out_dir archive w = (Err e, w1)"
    using bad f w1 assms(3) by (cases f) (auto simp: stage_archive_def fs_read_def)
  then show ?thesis using assms(1,2) w1 by (auto simp: build_main_def Let_def same_files_def)
qed

subsection \<open>A build\<close>

text \<open>A codec that puts the magic bytes before the data, and a short digest.\<close>

definition sample_codecs :: codecs where
  "sample_codecs =
     \<lparr>zstd_encode_all = (\<lambda>level data. Ok (ZSTD_MAGIC @ data)),
      zstd_decode_all = (\<lambda>data. case strip_prefix ZSTD_MAGIC data of
         None \<Rightarrow> Err invalid_utf8 | Some rest \<Rightarrow> Ok rest),
      sha256 = (\<lambda>data. rev (take 2 data))\<rparr>"

definition script_world :: world where
  "script_world =
     \<lparr>tree = Dir [(''out'', Dir []), (''a.tar'', File 0x1A4 ''tar''), (''b.zst'', File 0x1A4 ZSTD_MAGIC)],
      cwd = [], faults = []\<rparr>"

definition script_env :: "string option \<Rightarrow> build_env" where
  "script_env archive = \<lparr>env_out_dir = Ok ''/out'', env_archive = archive\<rparr>"

lemma script_world_plain: "plain_out ''/out'' [''out''] script_world"
proof -
  have "components ''/out'' = [RootDir, Normal ''out'']" by code_simp
  then have "reaches ''/out'' [''out'']" by (simp add: reaches_def)
  moreover have "direct (tree script_world) [''out'']" by code_simp
  moreover have "lookup (tree script_world) [''out'', ARCHIVE_OUT] = None"
    "lookup (tree script_world) [''out'', DIGEST_OUT] = None" by code_simp+
  ultimately show ?thesis by (simp add: plain_out_def no_link_def)
qed

lemma build_embeds_checked_archive_witness:
  "\<exists>w' bytes. embeds w' [''out''] bytes (hex (sha256 sample_codecs bytes)) \<and>
     zstd_decode_all sample_codecs bytes = Ok ''tar''"
proof -
  have "is_ok (fst (stage_archive sample_codecs ''/out'' ''/a.tar'' script_world))" by code_simp
  then obtain line w' where "stage_archive sample_codecs ''/out'' ''/a.tar'' script_world = (Inr line, w')"
    by (metis is_ok_iff prod.collapse)
  then obtain out where run: "build_main (script_env (Some ''/a.tar'')) sample_codecs script_world = (out, Ok (), w')"
    by (simp add: build_main_def script_env_def Let_def)
  have "stat script_world ''/a.tar'' = Ok (File 0x1A4 ''tar'')" "\<not> starts_with ''tar'' ZSTD_MAGIC" by code_simp+
  with build_embeds_checked_archive [OF run _ _ script_world_plain] show ?thesis
    by (auto simp: script_env_def)
qed

lemma build_without_archive_witness:
  "\<exists>w'. snd (build_main (script_env None) sample_codecs script_world) = (Ok (), w') \<and> embeds w' [''out''] [] []"
proof -
  have "fst (write_placeholders ''/out'' script_world) = Ok ()" by code_simp
  then obtain out w' where run: "build_main (script_env None) sample_codecs script_world = (out, Ok (), w')"
    by (auto simp: build_main_def script_env_def prod_eq_iff)
  from build_without_archive [OF run _ _ script_world_plain] run show ?thesis
    by (auto simp: script_env_def)
qed

lemma build_rejects_bad_archive_witness:
  "\<exists>out e w'. build_main (script_env (Some ''/b.zst'')) sample_codecs script_world = (out, Err e, w') \<and>
     same_files script_world w'"
proof -
  have "stat script_world ''/b.zst'' = Ok (File 0x1A4 ZSTD_MAGIC)" "starts_with ZSTD_MAGIC ZSTD_MAGIC"
    "zstd_decode_all sample_codecs ZSTD_MAGIC = Ok []" by code_simp+
  with build_rejects_bad_archive [of "script_env (Some ''/b.zst'')" "''/out''" "''/b.zst''" script_world _ ZSTD_MAGIC]
  show ?thesis by (simp add: script_env_def)
qed

end
