(* ===== verification/InstallRace.thy ===== *)
theory InstallRace
  imports VmRootfs
begin

text \<open>
  Several processes of the program installing into one cache at once. \<open>proc_step\<close> is \<open>install\<close> of
  \<open>src/vm_rootfs.rs\<close> cut at its calls: what is between two of them is one step, so any other process
  may work between them. A process that runs alone is \<open>install\<close>; the rest is about every interleaving.
\<close>

record installer =
  i_unpackers :: unpackers
  i_dns :: host_dns
  i_archive :: string
  i_key :: string
  i_root :: string

datatype phase =
    Checking
  | Staging
  | Rechecking
  | Clearing
  | Removing
  | Renaming
  | Sweeping
  | Dropping "(string, string) result"
  | Finished "(string, string) result"

definition proc_step :: "installer \<Rightarrow> nat \<Rightarrow> phase \<Rightarrow> world \<Rightarrow> phase \<times> world" where
  "proc_step I pid ph w =
     (let dir = join (i_root I) VERSION; staging = join (i_root I) (staging_name pid) in
      case ph of
        Checking \<Rightarrow>
          (case already_installed (i_dns I) dir (i_key I) w of
             (True, w1) \<Rightarrow> (Finished (Ok dir), w1)
           | (False, w1) \<Rightarrow> (Staging, w1))
      | Staging \<Rightarrow>
          (case stage (i_unpackers I) (i_archive I) (i_key I) staging w of
             (Inl err, w1) \<Rightarrow> (Dropping (Err err), w1)
           | (Inr _, w1) \<Rightarrow> (Rechecking, w1))
      | Rechecking \<Rightarrow>
          (case already_installed (i_dns I) dir (i_key I) w of
             (True, w1) \<Rightarrow> (Dropping (Ok dir), w1)
           | (False, w1) \<Rightarrow> (Clearing, w1))
      | Clearing \<Rightarrow>
          (case path_exists dir w of
             (True, w1) \<Rightarrow> (Removing, w1)
           | (False, w1) \<Rightarrow> (Renaming, w1))
      | Removing \<Rightarrow>
          (case remove_dir_all dir w of
             (Inl err, w1) \<Rightarrow> (Dropping (Err (failure ''remove stale VM rootfs'' dir err)), w1)
           | (Inr _, w1) \<Rightarrow> (Renaming, w1))
      | Renaming \<Rightarrow>
          (case rename staging dir w of
             (Inl err, w1) \<Rightarrow> (Dropping (Err (failure ''install VM rootfs into'' dir err)), w1)
           | (Inr _, w1) \<Rightarrow> (Sweeping, w1))
      | Sweeping \<Rightarrow> (Finished (Ok dir), sweep_old_versions (i_root I) dir w)
      | Dropping r \<Rightarrow> (Finished r, snd (remove_dir_all staging w))
      | Finished r \<Rightarrow> (Finished r, w))"

definition installer_of :: "unpackers \<Rightarrow> host_dns \<Rightarrow> string \<Rightarrow> string \<Rightarrow> string \<Rightarrow> installer" where
  "installer_of U h archive digest root =
     \<lparr>i_unpackers = U, i_dns = h, i_archive = archive, i_key = cache_key digest, i_root = root\<rparr>"

subsection \<open>A process alone\<close>

definition proc_run :: "installer \<Rightarrow> nat \<Rightarrow> nat \<Rightarrow> phase \<times> world \<Rightarrow> phase \<times> world" where
  "proc_run I pid n = (\<lambda>(ph, w). proc_step I pid ph w) ^^ n"

lemma proc_run_Suc: "proc_run I pid (Suc n) (ph, w) = proc_run I pid n (proc_step I pid ph w)"
  by (simp add: proc_run_def funpow_swap1)

lemma proc_run_Finished [simp]: "proc_run I pid n (Finished r, w) = (Finished r, w)"
  by (induction n) (simp_all add: proc_run_Suc proc_step_def proc_run_def)

text \<open>A process that is not interfered with does exactly what \<open>install\<close> does, in at most seven steps.\<close>

lemma proc_run_is_install:
  assumes "archive \<noteq> []"
  shows "proc_run (installer_of U h archive digest root) pid 7 (Checking, w) =
    (Finished (fst (install U h pid archive digest root w)), snd (install U h pid archive digest root w))"
proof -
  have n: "(7 :: nat) = Suc (Suc (Suc (Suc (Suc (Suc (Suc 0))))))" by simp
  show ?thesis
    unfolding n using assms
    by (simp add: proc_run_Suc install_def Let_def split: prod.split bool.split sum.split)
      (simp add: proc_run_Suc proc_step_def installer_of_def proc_run_def Let_def split: prod.split bool.split sum.split)
qed


subsection \<open>Processes together\<close>

type_synonym system = "(nat \<Rightarrow> phase) \<times> world"

inductive cache_step :: "installer \<Rightarrow> system \<Rightarrow> system \<Rightarrow> bool" for I where
  step: "proc_step I pid (ph pid) w = (p, w') \<Longrightarrow> cache_step I (ph, w) (ph(pid := p), w')"

inductive_cases cache_stepE: "cache_step I (ph, w) (ph', w')"

definition started :: "world \<Rightarrow> system" where
  "started w = (\<lambda>pid. Checking, w)"

abbreviation reachable :: "installer \<Rightarrow> world \<Rightarrow> system \<Rightarrow> bool" where
  "reachable I w \<equiv> (cache_step I)\<^sup>*\<^sup>* (started w)"

lemma reachable_induct [consumes 1, case_names started step]:
  assumes "reachable I w0 (ph, w)" "P (\<lambda>pid. Checking) w0"
    "\<And>ph w pid p w'. P ph w \<Longrightarrow> proc_step I pid (ph pid) w = (p, w') \<Longrightarrow> P (ph(pid := p)) w'"
  shows "P ph w"
proof -
  have "P (fst s) (snd s)" if "(cache_step I)\<^sup>*\<^sup>* (started w0) s" for s
    using that
  proof (induction rule: rtranclp_induct)
    case base
    show ?case using assms(2) by (simp add: started_def)
  next
    case (step y z)
    obtain ph w ph' w' where s: "y = (ph, w)" "z = (ph', w')" by fastforce
    have "P ph w" using step.IH s by simp
    with step.hyps(2) have "P ph' w'" unfolding s by (elim cache_stepE) (simp only: assms(3))
    then show ?case using s by simp
  qed
  then show ?thesis using assms(1) by fastforce
qed

text \<open>Staging directories of different processes have different names.\<close>

lemma staging_name_inject [simp]: "staging_name p = staging_name p' \<longleftrightarrow> p = p'"
proof
  assume "staging_name p = staging_name p'"
  then show "p = p'" by (simp add: staging_name_def dec.show_inject)
qed simp

lemma staging_name_ascii: "ascii (staging_name pid)"
proof -
  have "ascii (STAGING_PREFIX @ VERSION @ ''-'')"
    by (simp add: STAGING_PREFIX_def VERSION_def is_ascii_def)
  then show ?thesis using dec.show_ascii [of pid] by (auto simp: staging_name_def ascii_def list_all_iff)
qed

lemma staging_not_swept: "\<not> swept_name VERSION (staging_name pid)"
  by (simp add: swept_name_def to_string_lossy_valid valid_utf8_ascii staging_name_ascii staging_not_hit)

definition early :: "phase \<Rightarrow> bool" where
  "early ph = (ph = Checking \<or> ph = Staging)"

definition complete :: "phase \<Rightarrow> bool" where
  "complete ph = (ph \<in> {Rechecking, Clearing, Removing, Renaming})"

definition marker_at :: "node \<Rightarrow> string list \<Rightarrow> string \<Rightarrow> bool" where
  "marker_at r q key = (\<exists>m. lookup r (q @ [MARKER]) = Some (File m key))"

text \<open>What a step of one process can do to the cache: it works at its staging directory, or at the
  directory of the version, or moves the one to the other, or sweeps.\<close>

definition worked_as :: "installer \<Rightarrow> string list \<Rightarrow> nat \<Rightarrow> phase \<Rightarrow> world \<Rightarrow> world \<Rightarrow> bool" where
  "worked_as I q pid ph w w' =
     (let dir = join (i_root I) VERSION; staging = join (i_root I) (staging_name pid) in
      case ph of
        Staging \<Rightarrow> worked q (staging_name pid) w w'
      | Dropping r \<Rightarrow> worked q (staging_name pid) w w'
      | Removing \<Rightarrow> worked q VERSION w w'
      | Renaming \<Rightarrow> same_files w w' \<or> rename staging dir w = (Ok (), w')
      | Sweeping \<Rightarrow> w' = sweep_old_versions (i_root I) dir w
      | _ \<Rightarrow> same_files w w')"

definition may_start :: "string list \<Rightarrow> nat \<Rightarrow> phase \<Rightarrow> world \<Rightarrow> bool" where
  "may_start q pid ph w =
     (early ph \<longrightarrow> no_link (tree w) (q @ [staging_name pid]) \<and> no_link (tree w) (q @ [staging_name pid, MARKER]))"

lemma staging_step:
  assumes "proc_step I pid Staging w = (ph', w')" "unpack_laws (i_unpackers I) (i_archive I)"
    "reaches (i_root I) q" "direct (tree w) q" "may_start q pid Staging w"
  shows "worked q (staging_name pid) w w'"
    "ph' = Rechecking \<and> marker_at (tree w') (q @ [staging_name pid]) (i_key I) \<or> (\<exists>e. ph' = Dropping (Err e))"
    "no_faults w \<Longrightarrow> no_faults w'"
proof -
  let ?st = "join (i_root I) (staging_name pid)"
  have nl: "no_link (tree w) (q @ [staging_name pid])" "no_link (tree w) (q @ [staging_name pid, MARKER])"
    using assms(5) by (simp_all add: may_start_def early_def)
  have rs: "reaches ?st (q @ [staging_name pid])" using reaches_join [OF assms(3)] by simp
  obtain r w1 where r: "stage (i_unpackers I) (i_archive I) (i_key I) ?st w = (r, w1)" by fastforce
  have w': "w1 = w'" "ph' = (case r of Inl e \<Rightarrow> Dropping (Err e) | Inr _ \<Rightarrow> Rechecking)"
    using assms(1) r by (cases r; simp add: proc_step_def Let_def)+
  note eff = stage_effect [OF r assms(2) rs assms(4) nl]
  show "worked q (staging_name pid) w w'" "no_faults w \<Longrightarrow> no_faults w'" using eff(1,3) w' by simp_all
  show "ph' = Rechecking \<and> marker_at (tree w') (q @ [staging_name pid]) (i_key I) \<or> (\<exists>e. ph' = Dropping (Err e))"
    using eff(2) w' by (cases r) (simp_all add: marker_at_def)
qed

lemma proc_step_worked:
  assumes "proc_step I pid ph w = (ph', w')" "unpack_laws (i_unpackers I) (i_archive I)"
    "reaches (i_root I) q" "direct (tree w) q" "may_start q pid ph w"
  shows "worked_as I q pid ph w w'"
proof -
  let ?dir = "join (i_root I) VERSION" and ?st = "join (i_root I) (staging_name pid)"
  have rd: "reaches ?dir (q @ [VERSION])" and rs: "reaches ?st (q @ [staging_name pid])"
    using reaches_join [OF assms(3)] by simp_all
  have removed: "worked q n w (snd (remove_dir_all p w))" if "reaches p (q @ [n])" for p n
    using touched_worked [OF remove_dir_all_direct(1) [OF _ that assms(4)] assms(4)] by (metis prod.collapse)
  show ?thesis
  proof (cases ph)
    case Staging
    then show ?thesis using staging_step(1) [OF _ assms(2-4)] assms(1,5) by (simp add: worked_as_def Let_def)
  next
    case Removing
    then show ?thesis
      using assms(1) removed [OF rd]
      by (auto simp: proc_step_def worked_as_def Let_def split: prod.splits sum.splits)
  next
    case Renaming
    obtain r w1 where r: "rename ?st ?dir w = (r, w1)" by fastforce
    have "same_files w w1 \<or> r = Inr ()" using rename_direct [OF r rs rd _ assms(4)] by auto
    with assms(1) r Renaming show ?thesis
      by (cases r) (auto simp: proc_step_def worked_as_def Let_def)
  qed (use assms(1) removed [OF rs] in
      \<open>auto simp: proc_step_def worked_as_def Let_def split: prod.splits bool.splits
        dest: already_installed_same path_exists_same\<close>)
qed

lemma worked_as_effect:
  assumes "worked_as I q pid ph w w'" "reaches (i_root I) q" "direct (tree w) q"
  shows "inside q w w'"
    and "p \<noteq> pid \<or> complete ph \<and> ph \<noteq> Renaming \<Longrightarrow>
      lookup (tree w') (q @ staging_name p # s) = lookup (tree w) (q @ staging_name p # s)"
proof -
  let ?dir = "join (i_root I) VERSION" and ?st = "join (i_root I) (staging_name pid)"
  have rd: "reaches ?dir (q @ [VERSION])" and rs: "reaches ?st (q @ [staging_name pid])"
    using reaches_join [OF assms(2)] by simp_all
  have "inside q w w' \<and> (p \<noteq> pid \<or> complete ph \<and> ph \<noteq> Renaming \<longrightarrow>
      lookup (tree w') (q @ staging_name p # s) = lookup (tree w) (q @ staging_name p # s))"
  proof (cases ph)
    case Removing
    then have t: "worked q VERSION w w'" using assms(1) by (simp add: worked_as_def Let_def)
    then show ?thesis using worked_beside [OF t, of "staging_name p"] worked_inside by simp
  next
    case Renaming
    consider "same_files w w'" | "rename ?st ?dir w = (Ok (), w')"
      using assms(1) Renaming by (auto simp: worked_as_def Let_def)
    then show ?thesis
    proof cases
      case 2
      from rename_direct [OF 2 rs rd _ assms(3)] rename_inside [OF 2 rs rd _ assms(3)] Renaming show ?thesis
        by (auto simp: tree.move_beside)
    qed (use assms(3) in \<open>auto simp: same_files_def intro: inside.same\<close>)
  next
    case Sweeping
    then show ?thesis
      using assms(1) sweep_effect(1,2) [OF assms(2,3)] staging_not_swept [of p]
      by (auto simp: worked_as_def Let_def)
  qed (use assms(1,3) worked_beside [of q "staging_name pid" w w' "staging_name p" s] in
      \<open>auto simp: worked_as_def Let_def complete_def same_files_def worked_inside intro: inside.same\<close>)
  then show "inside q w w'"
    and "p \<noteq> pid \<or> complete ph \<and> ph \<noteq> Renaming \<Longrightarrow>
      lookup (tree w') (q @ staging_name p # s) = lookup (tree w) (q @ staging_name p # s)" by blast+
qed

text \<open>How the phases follow each other.\<close>

lemma proc_step_phase:
  assumes "proc_step I pid ph w = (ph', w')"
  shows "early ph' \<Longrightarrow> ph = Checking" "complete ph' \<Longrightarrow> ph = Staging \<or> complete ph \<and> ph \<noteq> Renaming"
  using assms
  by (cases ph; auto simp: proc_step_def early_def complete_def Let_def split: prod.splits bool.splits sum.splits)+

subsection \<open>Every staging directory stays whole\<close>

text \<open>What holds of a cache in use, whatever faults come.\<close>

definition in_use :: "installer \<Rightarrow> string list \<Rightarrow> world \<Rightarrow> (nat \<Rightarrow> phase) \<Rightarrow> world \<Rightarrow> bool" where
  "in_use I q w0 ph w =
     (inside q w0 w \<and>
      (\<forall>p. may_start q p (ph p) w) \<and>
      (\<forall>p. complete (ph p) \<longrightarrow> marker_at (tree w) (q @ [staging_name p]) (i_key I)))"

lemma in_use_step:
  assumes "in_use I q w0 ph w" "proc_step I pid (ph pid) w = (p, w')"
    "unpack_laws (i_unpackers I) (i_archive I)" "reaches (i_root I) q"
  shows "in_use I q w0 (ph(pid := p)) w'"
proof -
  have i: "inside q w0 w" and d: "direct (tree w) q" and st: "may_start q x (ph x) w"
    and mk: "complete (ph x) \<Longrightarrow> marker_at (tree w) (q @ [staging_name x]) (i_key I)" for x
    using assms(1) by (simp_all add: in_use_def inside_def)
  note as = proc_step_worked [OF assms(2-4) d st]
  note other = worked_as_effect(2) [OF as assms(4) d]
  have "inside q w0 w'" using inside.trans [OF i worked_as_effect(1) [OF as assms(4) d]] .
  moreover have "may_start q x ((ph(pid := p)) x) w'" for x
  proof (cases "x = pid")
    case True
    have "tree w' = tree w" if "early p"
      using as proc_step_phase(1) [OF assms(2) that] by (simp add: worked_as_def Let_def same_files_def)
    then show ?thesis
      using True st [of pid] proc_step_phase(1) [OF assms(2)] by (auto simp: may_start_def early_def)
  next
    case False
    then show ?thesis using st [of x] other [of x "[]"] other [of x "[MARKER]"] by (simp add: may_start_def no_link_def)
  qed
  moreover have "marker_at (tree w') (q @ [staging_name x]) (i_key I)" if c: "complete ((ph(pid := p)) x)" for x
  proof (cases "x = pid \<and> ph pid = Staging")
    case True
    then show ?thesis
      using staging_step(2) [OF _ assms(3,4) d, of pid p w'] assms(2) st [of pid] c by (auto simp: complete_def)
  next
    case False
    with c have "complete (ph x)" "x \<noteq> pid \<or> complete (ph pid) \<and> ph pid \<noteq> Renaming"
      using proc_step_phase(2) [OF assms(2)] by (auto split: if_splits)
    then show ?thesis using mk [of x] other [of x "[MARKER]"] by (auto simp: marker_at_def)
  qed
  ultimately show ?thesis by (simp add: in_use_def)
qed

lemma in_use_reachable:
  assumes "unpack_laws (i_unpackers I) (i_archive I)" "reaches (i_root I) q" "\<forall>pid. clean (tree w0) q pid"
    "reachable I w0 (ph, w)"
  shows "in_use I q w0 ph w"
  using assms(4)
proof (induction rule: reachable_induct)
  case started
  show ?case using assms(3) by (simp add: in_use_def may_start_def clean_def inside.refl complete_def)
next
  case (step ph w pid p w')
  show ?case by (rule in_use_step [OF step assms(1,2)])
qed

text \<open>A complete staging directory is not touched between any two moments at which it is complete.\<close>

lemma staging_kept:
  assumes "unpack_laws (i_unpackers I) (i_archive I)" "reaches (i_root I) q" "\<forall>pid. clean (tree w0) q pid"
    "reachable I w0 s" "(cache_step I)\<^sup>*\<^sup>* s s'" "complete (fst s pid)"
  shows "\<not> early (fst s' pid) \<and> (complete (fst s' pid) \<longrightarrow>
    lookup (tree (snd s')) (q @ staging_name pid # x) = lookup (tree (snd s)) (q @ staging_name pid # x))"
  using assms(5)
proof (induction rule: rtranclp_induct)
  case base
  show ?case using assms(6) by (auto simp: early_def complete_def)
next
  case (step y z)
  obtain ph w where y: "y = (ph, w)" by fastforce
  from step.hyps(2) obtain i p w' where z: "z = (ph(i := p), w')" and st: "proc_step I i (ph i) w = (p, w')"
    unfolding y by (auto elim: cache_step.cases)
  have "reachable I w0 (ph, w)" using assms(4) step.hyps(1) y by simp
  from in_use_reachable [OF assms(1-3) this] have d: "direct (tree w) q" and e: "may_start q i (ph i) w"
    by (simp_all add: in_use_def inside_def)
  note as = proc_step_worked [OF st assms(1,2) d e]
  have ne: "\<not> early (ph pid)" using step.IH by (simp add: y)
  then have "\<not> early ((ph(i := p)) pid)" using proc_step_phase(1) [OF st] by (auto simp: early_def)
  moreover have "lookup (tree w') (q @ staging_name pid # x) = lookup (tree (snd s)) (q @ staging_name pid # x)"
    if c: "complete ((ph(i := p)) pid)"
  proof -
    have "complete (ph pid)" "pid \<noteq> i \<or> complete (ph i) \<and> ph i \<noteq> Renaming"
      using c ne proc_step_phase(2) [OF st] by (auto simp: early_def split: if_splits)
    then show ?thesis using worked_as_effect(2) [OF as assms(2) d] step.IH by (simp add: y)
  qed
  ultimately show ?case by (simp add: z)
qed

text \<open>C18. Whatever order the steps of any number of processes come in and whatever fails under them, nothing
  outside the cache changes, and from the moment a process has unpacked until it moves the tree into
  place its staging directory has the marker of the complete extraction and stays, entry by entry, as it
  was: no other process's extraction, removal, rename or sweep reaches it.\<close>
theorem racing_keeps_staging:
  assumes "unpack_laws (i_unpackers I) (i_archive I)" "reaches (i_root I) q" "\<forall>pid. clean (tree w0) q pid"
    "reachable I w0 (ph, w)" "(cache_step I)\<^sup>*\<^sup>* (ph, w) (ph', w')"
  shows "below_only q (tree w0) (tree w') \<and>
    (\<forall>pid. ph' pid \<in> {Rechecking, Clearing, Removing, Renaming} \<longrightarrow>
      (\<exists>m. lookup (tree w') (q @ [staging_name pid, MARKER]) = Some (File m (i_key I))) \<and>
      (ph pid \<in> {Rechecking, Clearing, Removing, Renaming} \<longrightarrow>
        (\<forall>s. lookup (tree w') (q @ staging_name pid # s) = lookup (tree w) (q @ staging_name pid # s))))"
proof -
  have "reachable I w0 (ph', w')" using assms(4,5) by simp
  from in_use_reachable [OF assms(1-3) this] staging_kept [OF assms] show ?thesis
    by (simp add: in_use_def inside_def complete_def marker_at_def)
qed

subsection \<open>Where all have finished\<close>

lemma no_faults_rename: "rename src dst w = (r, w') \<Longrightarrow> no_faults w \<Longrightarrow> no_faults w'"
  by (auto simp: rename_def split: prod.splits option.splits sum.splits if_splits dest: no_faults_next)

lemma no_faults_sweep: "no_faults w \<Longrightarrow> no_faults (sweep_old_versions root current w)"
proof -
  have e: "no_faults (sweep_entries root current names w)" if "no_faults w" for names w
    using that
  proof (induction names arbitrary: w)
    case (Cons n ns)
    obtain b w1 where 1: "path_is_dir (join root n) w = (b, w1)" by fastforce
    obtain r w2 where 2: "remove_dir_all (join root n) w1 = (r, w2)" by fastforce
    have "no_faults w1" "no_faults w2"
      using no_faults_queries(1) [OF 1 Cons.prems] no_faults_remove_dir_all [OF 2] by simp_all
    with Cons 1 2 show ?case by (cases b) (simp_all add: Let_def)
  qed simp
  assume "no_faults w"
  moreover obtain r w1 where "read_dir root w = (r, w1)" by fastforce
  moreover have "no_faults w1" if "no_faults w" "read_dir root w = (r, w1)"
    using that by (auto simp: read_dir_def split: prod.splits option.splits sum.splits node.splits dest: no_faults_next)
  ultimately show "no_faults (sweep_old_versions root current w)"
    using e by (cases r) (simp_all add: sweep_old_versions_def)
qed

lemma remove_dir_all_failed:
  assumes "remove_dir_all p w = (Inl e, w')" "no_faults w"
  shows "tree w' = tree w"
proof -
  obtain w1 where "next_fault w = (None, w1)" "tree w1 = tree w" using no_faultsD [OF assms(2)] by blast
  with assms(1) show ?thesis
    by (auto simp: remove_dir_all_def split: sum.splits prod.splits option.splits node.splits)
qed

lemma proc_step_no_faults:
  assumes "proc_step I pid ph w = (ph', w')" "no_faults w" "unpack_laws (i_unpackers I) (i_archive I)"
    "reaches (i_root I) q" "direct (tree w) q" "may_start q pid ph w"
  shows "no_faults w'"
proof (cases ph)
  case Staging
  with staging_step(3) [OF _ assms(3-5)] assms(1,2,6) show ?thesis by blast
next
  case (Dropping r)
  with assms(1,2) show ?thesis
    using no_faults_remove_dir_all by (auto simp: proc_step_def Let_def) (metis prod.collapse)
qed (use assms(1,2) no_faults_sweep in
    \<open>auto simp: proc_step_def Let_def split: prod.splits bool.splits sum.splits
      dest: no_faults_already_installed no_faults_queries no_faults_remove_dir_all no_faults_rename\<close>)

text \<open>The marker of the version names the archive.\<close>

definition marked :: "node \<Rightarrow> string list \<Rightarrow> string \<Rightarrow> bool" where
  "marked r q key =
     (\<exists>m c. lookup r (q @ [VERSION, MARKER]) = Some (File m c) \<and> valid_utf8 c \<and> trim c = key)"

definition returned_ok :: "phase \<Rightarrow> bool" where
  "returned_ok ph = (ph = Sweeping \<or> (\<exists>d. ph = Dropping (Ok d) \<or> ph = Finished (Ok d)))"

text \<open>Without faults: the version is free of links; while a process is about to move its tree there,
  the version is missing or marked; and once a process has succeeded, the version is marked or about to be.\<close>

definition settling :: "installer \<Rightarrow> string list \<Rightarrow> (nat \<Rightarrow> phase) \<Rightarrow> world \<Rightarrow> bool" where
  "settling I q ph w =
     (no_faults w \<and> no_link (tree w) (q @ [VERSION]) \<and> no_link (tree w) (q @ [VERSION, MARKER]) \<and>
      (Renaming \<in> range ph \<longrightarrow> lookup (tree w) (q @ [VERSION]) = None \<or> marked (tree w) q (i_key I)) \<and>
      ((\<exists>p. returned_ok (ph p)) \<longrightarrow> Renaming \<in> range ph \<or> marked (tree w) q (i_key I)))"

text \<open>What a step without faults does to the version.\<close>

definition version_after :: "installer \<Rightarrow> string list \<Rightarrow> phase \<Rightarrow> world \<Rightarrow> phase \<Rightarrow> world \<Rightarrow> bool" where
  "version_after I q ph w ph' w' =
     (if ph' = Renaming then lookup (tree w') (q @ [VERSION]) = None
      else if ph = Renaming \<and> returned_ok ph' then marked (tree w') q (i_key I)
      else (\<forall>s. lookup (tree w') (q @ VERSION # s) = lookup (tree w) (q @ VERSION # s)) \<and>
        (ph = Renaming \<longrightarrow> lookup (tree w) (q @ [VERSION]) \<noteq> None) \<and>
        (returned_ok ph' \<longrightarrow> returned_ok ph \<or> marked (tree w) q (i_key I)))"

lemma renaming_version:
  assumes "proc_step I pid Renaming w = (ph', w')" "no_faults w" "reaches (i_root I) q" "direct (tree w) q"
    "marker_at (tree w) (q @ [staging_name pid]) (i_key I)" "valid_utf8 (i_key I)" "trim (i_key I) = i_key I"
  shows "version_after I q Renaming w ph' w'"
proof -
  let ?dir = "join (i_root I) VERSION" and ?st = "join (i_root I) (staging_name pid)"
  have rd: "reaches ?dir (q @ [VERSION])" and rs: "reaches ?st (q @ [staging_name pid])"
    using reaches_join [OF assms(3)] by simp_all
  obtain r w1 where r: "rename ?st ?dir w = (r, w1)" by fastforce
  show ?thesis
  proof (cases r)
    case (Inr u)
    then have "rename ?st ?dir w = (Inr (), w1)" using r by simp
    from rename_moves [OF this rs rd _ assms(4), of "[MARKER]"]
    have "lookup (tree w1) (q @ [VERSION, MARKER]) = lookup (tree w) (q @ [staging_name pid, MARKER])" by simp
    then have "marked (tree w1) q (i_key I)" using assms(5-7) by (auto simp: marked_def marker_at_def)
    with assms(1) r Inr show ?thesis
      by (auto simp: proc_step_def version_after_def returned_ok_def)
  next
    case (Inl e)
    then have "same_files w w1" using rename_direct [OF r rs rd _ assms(4)] by auto
    moreover have "lookup (tree w) (q @ [VERSION]) \<noteq> None"
    proof
      assume none: "lookup (tree w) (q @ [VERSION]) = None"
      obtain n where n: "lookup (tree w) (q @ [staging_name pid]) = Some n"
        using assms(5) lookup_below_none [of "tree w" "q @ [staging_name pid]" "[MARKER]"]
        by (cases "lookup (tree w) (q @ [staging_name pid])") (auto simp: marker_at_def)
      then have "dir_at (tree w) q" using lookup_no_dir [of "tree w" q "staging_name pid"] by auto
      from rename_works [OF assms(2) rs rd _ this n none] r Inl show False by simp
    qed
    ultimately show ?thesis
      using assms(1) r Inl
      by (auto simp: proc_step_def version_after_def returned_ok_def same_files_def)
  qed
qed

lemma unaffected_version:
  assumes "\<forall>s. lookup (tree w') (q @ VERSION # s) = lookup (tree w) (q @ VERSION # s)" "ph \<noteq> Renaming" "ph' \<noteq> Renaming"
    "returned_ok ph' \<Longrightarrow> returned_ok ph \<or> marked (tree w) q (i_key I)"
  shows "version_after I q ph w ph' w'"
  using assms by (simp add: version_after_def)

lemma removing_version:
  assumes "proc_step I pid Removing w = (ph', w')" "no_faults w" "reaches (i_root I) q" "direct (tree w) q"
  shows "version_after I q Removing w ph' w'"
proof -
  obtain r w1 where r: "remove_dir_all (join (i_root I) VERSION) w = (r, w1)" by fastforce
  with assms(1) remove_dir_all_failed [OF _ assms(2)] remove_dir_all_direct(2) [OF r reaches_join [OF assms(3)] assms(4)]
  show ?thesis
    by (cases r) (auto simp: proc_step_def version_after_def returned_ok_def)
qed

lemma clearing_version:
  assumes "proc_step I pid Clearing w = (ph', w')" "no_faults w" "reaches (i_root I) q" "direct (tree w) q"
    "no_link (tree w) (q @ [VERSION])"
  shows "version_after I q Clearing w ph' w'"
proof -
  obtain w1 where "path_exists (join (i_root I) VERSION) w = (lookup (tree w) (q @ [VERSION]) \<noteq> None, w1)" "same_files w w1"
    using path_exists_direct [OF assms(2) reaches_join [OF assms(3)] assms(4,5)] by auto
  with assms(1) show ?thesis
    by (cases "lookup (tree w) (q @ [VERSION])")
      (auto simp: proc_step_def version_after_def returned_ok_def same_files_def)
qed

text \<open>In every other phase the version is not touched, and what is returned as installed was seen to be.\<close>

lemma proc_step_returns:
  assumes "proc_step I pid ph w = (ph', w')" "returned_ok ph'" "ph \<noteq> Renaming"
  shows "returned_ok ph \<or> (\<exists>w1. already_installed (i_dns I) (join (i_root I) VERSION) (i_key I) w = (True, w1))"
  using assms
  by (cases ph) (auto simp: proc_step_def returned_ok_def Let_def split: prod.splits bool.splits sum.splits)

lemma proc_step_version:
  assumes "proc_step I pid ph w = (ph', w')" "no_faults w" "unpack_laws (i_unpackers I) (i_archive I)"
    "reaches (i_root I) q" "direct (tree w) q" "may_start q pid ph w"
    "no_link (tree w) (q @ [VERSION])" "no_link (tree w) (q @ [VERSION, MARKER])"
    "complete ph \<Longrightarrow> marker_at (tree w) (q @ [staging_name pid]) (i_key I)"
    "valid_utf8 (i_key I)" "trim (i_key I) = i_key I"
  shows "version_after I q ph w ph' w'"
proof -
  consider "ph = Clearing" | "ph = Removing" | "ph = Renaming" | "ph \<notin> {Clearing, Removing, Renaming}" by blast
  then show ?thesis
  proof cases
    case 1
    then show ?thesis using clearing_version assms(1,2,4,5,7) by blast
  next
    case 2
    then show ?thesis using removing_version assms(1,2,4,5) by blast
  next
    case 3
    then show ?thesis using renaming_version [OF _ assms(2,4,5) _ assms(10,11)] assms(1,9) by (simp add: complete_def)
  next
    case 4
    have "marked (tree w) q (i_key I)" if "already_installed (i_dns I) (join (i_root I) VERSION) (i_key I) w = (True, w1)" for w1
      using already_installed_recorded [OF that] marker_recorded_direct [OF assms(4,5,7,8)] by (simp add: marked_def)
    then have "returned_ok ph' \<Longrightarrow> returned_ok ph \<or> marked (tree w) q (i_key I)"
      using proc_step_returns [OF assms(1)] 4 by blast
    moreover have "\<forall>s. lookup (tree w') (q @ VERSION # s) = lookup (tree w) (q @ VERSION # s)"
      using proc_step_worked [OF assms(1,3-6)] 4 worked_beside [of q "staging_name pid" w w' VERSION]
        sweep_effect(2) [OF assms(4,5), of VERSION]
      by (cases ph) (auto simp: worked_as_def Let_def same_files_def swept_name_def)
    moreover have "ph' \<noteq> Renaming"
      using assms(1) 4
      by (cases ph) (auto simp: proc_step_def Let_def split: prod.splits bool.splits sum.splits)
    ultimately show ?thesis using 4 by (intro unaffected_version) auto
  qed
qed

lemma marked_no_link:
  assumes "marked r q key"
  shows "no_link r (q @ [VERSION])" "no_link r (q @ [VERSION, MARKER])"
proof -
  obtain m c where c: "lookup r ((q @ [VERSION]) @ [MARKER]) = Some (File m c)" using assms by (auto simp: marked_def)
  then have "dir_at r (q @ [VERSION])" using lookup_no_dir [of r "q @ [VERSION]" MARKER] by auto
  then show "no_link r (q @ [VERSION])" by (auto simp: dir_at_lookup no_link_def)
  show "no_link r (q @ [VERSION, MARKER])" using c by (simp add: no_link_def)
qed

lemma settling_step:
  assumes "settling I q ph w" "no_faults w'" "version_after I q (ph pid) w p w'"
  shows "settling I q (ph(pid := p)) w'"
proof -
  consider (cleared) "p = Renaming" "lookup (tree w') (q @ [VERSION]) = None"
    | (moved) "p \<noteq> Renaming" "marked (tree w') q (i_key I)"
    | (same) "p \<noteq> Renaming" "\<forall>s. lookup (tree w') (q @ VERSION # s) = lookup (tree w) (q @ VERSION # s)"
      "ph pid = Renaming \<longrightarrow> lookup (tree w) (q @ [VERSION]) \<noteq> None"
      "returned_ok p \<longrightarrow> returned_ok (ph pid) \<or> marked (tree w) q (i_key I)"
    using assms(3) by (auto simp: version_after_def split: if_splits)
  then show ?thesis
  proof cases
    case cleared
    then show ?thesis
      using assms(2) lookup_below_none [of "tree w'" "q @ [VERSION]" "[MARKER]"]
      by (auto simp: settling_def no_link_def)
  next
    case moved
    then show ?thesis using assms(2) marked_no_link by (auto simp: settling_def)
  next
    case same
    have m: "marked (tree w') q (i_key I) \<longleftrightarrow> marked (tree w) q (i_key I)"
      and l: "lookup (tree w') (q @ [VERSION]) = lookup (tree w) (q @ [VERSION])"
      and nl: "no_link (tree w') (q @ VERSION # s) \<longleftrightarrow> no_link (tree w) (q @ VERSION # s)" for s
      using same(2) by (simp_all add: marked_def no_link_def)
    have "Renaming \<in> range ph" if "Renaming \<in> range (ph(pid := p))"
      using that same(1) by (auto split: if_splits)
    moreover have "Renaming \<in> range (ph(pid := p)) \<or> marked (tree w) q (i_key I)" if "Renaming \<in> range ph"
    proof (cases "ph pid = Renaming")
      case True
      with assms(1) same(3) that show ?thesis by (simp add: settling_def)
    next
      case False
      with that show ?thesis by (metis fun_upd_other rangeE rangeI)
    qed
    moreover have "(\<exists>x. returned_ok (ph x)) \<or> marked (tree w) q (i_key I)" if "\<exists>x. returned_ok ((ph(pid := p)) x)"
      using that same(4) by (auto split: if_splits)
    ultimately show ?thesis
      using assms(1,2) m l nl [of "[]"] nl [of "[MARKER]"]
      unfolding settling_def by (metis append_Nil2)
  qed
qed

lemma settling_reachable:
  assumes "unpack_laws (i_unpackers I) (i_archive I)" "reaches (i_root I) q" "\<forall>pid. clean (tree w0) q pid"
    "no_faults w0" "valid_utf8 (i_key I)" "trim (i_key I) = i_key I" "reachable I w0 (ph, w)"
  shows "in_use I q w0 ph w \<and> settling I q ph w"
  using assms(7)
proof (induction rule: reachable_induct)
  case started
  show ?case
    using assms(3,4) by (simp add: in_use_def may_start_def settling_def clean_def inside.refl complete_def returned_ok_def)
next
  case (step ph w pid p w')
  then have u: "in_use I q w0 ph w" and t: "settling I q ph w" by simp_all
  have d: "direct (tree w) q" using u by (simp add: in_use_def inside_def)
  have nf: "no_faults w" and nl: "no_link (tree w) (q @ [VERSION])" "no_link (tree w) (q @ [VERSION, MARKER])"
    using t by (simp_all add: settling_def)
  have e: "may_start q pid (ph pid) w"
    and c: "complete (ph pid) \<Longrightarrow> marker_at (tree w) (q @ [staging_name pid]) (i_key I)"
    using u by (simp_all add: in_use_def)
  have "version_after I q (ph pid) w p w'"
    by (rule proc_step_version [OF step(2) nf assms(1,2) d e nl c assms(5,6)])
  then show ?case
    using in_use_step [OF u step(2) assms(1,2)] settling_step [OF t]
      proc_step_no_faults [OF step(2) nf assms(1,2) d e] by blast
qed

text \<open>C19. Without faults racing installations settle: whatever order the steps of any number of processes
  came in, once none is between its first check and its end and at least one has returned the
  directory, the directory of the version is there and its marker names the archive.\<close>
theorem racing_installs_settle:
  assumes "unpack_laws U archive" "reaches root q" "\<forall>pid. clean (tree w0) q pid" "no_faults w0" "ascii digest"
    "reachable (installer_of U h archive digest root) w0 (ph, w)"
    "\<forall>pid. ph pid = Checking \<or> (\<exists>r. ph pid = Finished r)" "ph pid = Finished (Ok dir)"
  shows "marker_recorded w (join root VERSION) (cache_key digest)"
proof -
  let ?I = "installer_of U h archive digest root"
  have I: "i_unpackers ?I = U" "i_archive ?I = archive" "i_root ?I = root" "i_key ?I = cache_key digest"
    by (simp_all add: installer_of_def)
  note inv = settling_reachable [of ?I q w0 ph w, unfolded I,
      OF assms(1-4) cache_key_ascii(2,3) [OF assms(5)] assms(6)]
  have "ph x \<noteq> Renaming" for x using spec [OF assms(7), of x] by (elim disjE exE) simp_all
  then have "Renaming \<notin> range ph" by (metis rangeE)
  moreover have "returned_ok (ph pid)" using assms(8) by (simp add: returned_ok_def)
  ultimately have "marked (tree w) q (cache_key digest)" using inv by (auto simp: settling_def I)
  then show ?thesis
    using inv marker_recorded_direct [OF assms(2)]
    by (auto simp: settling_def in_use_def inside_def marked_def)
qed

subsection \<open>What the second check does not cover\<close>

lemma rename_refused:
  assumes "no_faults w" "reaches src (q @ [a])" "reaches dst (q @ [b])" "a \<noteq> b" "direct (tree w) q"
    "lookup (tree w) (q @ [b, n]) \<noteq> None"
  obtains e w' where "rename src dst w = (Err e, w')"
proof -
  obtain r w' where r: "rename src dst w = (r, w')" by fastforce
  obtain w1 where w1: "next_fault w = (None, w1)" "tree w1 = tree w" "cwd w1 = cwd w" "no_faults w1"
    using no_faultsD [OF assms(1)] by blast
  have "\<exists>e. r = Err e"
  proof (rule ccontr)
    assume "\<nexists>e. r = Err e"
    then have ok: "r = Ok ()" by (cases r) auto
    then obtain src_node where s: "dir_at (tree w) q" "lookup (tree w) (q @ [a]) = Some src_node"
      using rename_direct [OF r assms(2-5)] by auto
    have p: "resolve_parent w1 src = Ok (q, a)" "resolve_parent w1 dst = Ok (q, b)"
      using resolve_parent_direct assms(2,3,5) s(1) w1(2) by (metis, metis)
    have "dir_at (tree w) (q @ [b])" using assms(6) lookup_no_dir [of "tree w" "q @ [b]" n] by (cases "dir_at (tree w) (q @ [b])") auto
    then obtain es where es: "lookup (tree w) (q @ [b]) = Some (Dir es)" by (auto simp: dir_at_lookup)
    then have "es \<noteq> []" using assms(6) lookup_append [of "tree w" "q @ [b]" "[n]"] by auto
    then have "\<exists>e. may_replace src_node (Some (Dir es)) = Err e" by (simp add: may_replace_def)
    then show False using r ok w1 p s(2) es assms(4) by (auto simp: rename_def)
  qed
  with r show thesis using that by blast
qed

lemma clearing_removes:
  assumes "reaches (i_root I) q" "direct (tree w) q" "no_faults w" "no_link (tree w) (q @ [VERSION])"
    "lookup (tree w) (q @ [VERSION, MARKER]) \<noteq> None" "ph pid = Clearing"
  shows "\<exists>w1 w2. cache_step I (ph, w) (ph(pid := Removing), w1) \<and>
    cache_step I (ph(pid := Removing), w1) (ph(pid := Renaming), w2) \<and> lookup (tree w2) (q @ [VERSION]) = None"
proof -
  let ?dir = "join (i_root I) VERSION"
  have rd: "reaches ?dir (q @ [VERSION])" using reaches_join [OF assms(1)] by simp
  have "dir_at (tree w) (q @ [VERSION])"
    using assms(5) lookup_no_dir [of "tree w" "q @ [VERSION]" MARKER] by (cases "dir_at (tree w) (q @ [VERSION])") auto
  then obtain es where es: "lookup (tree w) (q @ [VERSION]) = Some (Dir es)" by (auto simp: dir_at_lookup)
  then have dq: "dir_at (tree w) q" using lookup_no_dir [of "tree w" q VERSION] by auto
  obtain w1 where w1: "path_exists ?dir w = (True, w1)" "no_faults w1" "same_files w w1"
    using path_exists_direct [OF assms(3) rd assms(2,4)] es by auto
  have t1: "tree w1 = tree w" using w1(3) by (simp add: same_files_def)
  obtain w2 where w2: "remove_dir_all ?dir w1 = (Ok (), w2)"
    using remove_dir_all_works [OF w1(2) rd, unfolded t1, OF dq es] by auto
  have "cache_step I (ph, w) (ph(pid := Removing), w1)"
    using w1(1) assms(6) by (intro cache_step.step) (simp add: proc_step_def)
  moreover have "cache_step I (ph(pid := Removing), w1) ((ph(pid := Removing))(pid := Renaming), w2)"
    using w2 by (intro cache_step.step) (simp add: proc_step_def)
  moreover have "lookup (tree w2) (q @ [VERSION]) = None"
    using remove_dir_all_direct(2) [OF w2 rd] assms(2) t1 by simp
  ultimately show ?thesis by auto
qed

text \<open>C20. The second check does not close the window to the move. Once a process has passed it, a rootfs that
  another process puts in place, marked as the embedded one, is not safe: if the process is about to look
  whether there is a directory to clear away, its next two steps remove that rootfs, without any fault; and
  if it is about to move its own tree there, that step fails.\<close>
theorem racing_install_window:
  assumes "unpack_laws U archive" "reaches root q" "\<forall>pid. clean (tree w0) q pid" "no_faults w0" "ascii digest"
    "reachable (installer_of U h archive digest root) w0 (ph, w)"
    "marker_recorded w (join root VERSION) (cache_key digest)"
  shows "(ph pid = Clearing \<longrightarrow>
      (\<exists>w1 w2. cache_step (installer_of U h archive digest root) (ph, w) (ph(pid := Removing), w1) \<and>
        cache_step (installer_of U h archive digest root) (ph(pid := Removing), w1) (ph(pid := Renaming), w2) \<and>
        lookup (tree w2) (q @ [VERSION]) = None)) \<and>
    (ph pid = Renaming \<longrightarrow>
      (\<exists>e w1. cache_step (installer_of U h archive digest root) (ph, w) (ph(pid := Dropping (Err e)), w1)))"
proof -
  let ?I = "installer_of U h archive digest root" and ?dir = "join root VERSION" and ?st = "join root (staging_name pid)"
  have I: "i_unpackers ?I = U" "i_archive ?I = archive" "i_root ?I = root" "i_key ?I = cache_key digest"
    by (simp_all add: installer_of_def)
  note inv = settling_reachable [of ?I q w0 ph w, unfolded I,
      OF assms(1-4) cache_key_ascii(2,3) [OF assms(5)] assms(6)]
  have d: "direct (tree w) q" and nf: "no_faults w" and nl: "no_link (tree w) (q @ [VERSION])"
    "no_link (tree w) (q @ [VERSION, MARKER])"
    using inv by (simp_all add: in_use_def inside_def settling_def)
  have m: "lookup (tree w) (q @ [VERSION, MARKER]) \<noteq> None"
    using assms(7) marker_recorded_direct [OF assms(2) d nl] by auto
  have "\<exists>e w1. cache_step ?I (ph, w) (ph(pid := Dropping (Err e)), w1)" if c: "ph pid = Renaming"
  proof -
    obtain e w1 where "rename ?st ?dir w = (Err e, w1)"
      using rename_refused [OF nf reaches_join [OF assms(2)] reaches_join [OF assms(2)] _ d m, of "staging_name pid"] by auto
    then have "proc_step ?I pid (ph pid) w = (Dropping (Err (failure ''install VM rootfs into'' ?dir e)), w1)"
      using c by (simp add: proc_step_def I)
    then show ?thesis using cache_step.step by blast
  qed
  with clearing_removes [of ?I q w ph pid, unfolded I, OF assms(2) d nf nl(1) m] show ?thesis by blast
qed

end
