(* ===== verification/InstallRaceSamples.thy ===== *)
theory InstallRaceSamples
  imports InstallRace VmRootfsSamples
begin

text \<open>
  Schedules of two processes installing into the sample cache: one in which they settle though the second
  fails, and two in which the window between the second check and the move shows.
\<close>

fun run_schedule :: "installer \<Rightarrow> nat list \<Rightarrow> system \<Rightarrow> system" where
  "run_schedule I [] s = s"
| "run_schedule I (pid # pids) (ph, w) =
     (case proc_step I pid (ph pid) w of (p, w') \<Rightarrow> run_schedule I pids (ph(pid := p), w'))"

lemma run_schedule_steps: "(cache_step I)\<^sup>*\<^sup>* s (run_schedule I pids s)"
proof (induction I pids s rule: run_schedule.induct)
  case (2 I pid pids ph w)
  obtain p w' where p: "proc_step I pid (ph pid) w = (p, w')" by fastforce
  with 2 cache_step.step [where ph = ph and pid = pid, OF p] show ?case by (auto intro: converse_rtranclp_into_rtranclp)
qed simp

lemma run_schedule_reachable:
  "run_schedule I pids (started w) = (ph, w') \<Longrightarrow> reachable I w (ph, w')"
  using run_schedule_steps [of I "started w" pids] by simp

lemma untouched: "p \<notin> set pids \<Longrightarrow> fst (run_schedule I pids s) p = fst s p"
proof (induction I pids s rule: run_schedule.induct)
  case (2 I pid pids ph w)
  obtain x w' where "proc_step I pid (ph pid) w = (x, w')" by fastforce
  with 2 show ?case by simp
qed simp

definition sample_installer :: "string \<Rightarrow> installer" where
  "sample_installer key =
     \<lparr>i_unpackers = sample_unpackers, i_dns = quiet_dns, i_archive = ''archive'', i_key = key, i_root = ''/cache''\<rparr>"

lemma sample_installer_of: "sample_installer (cache_key digest) = installer_of sample_unpackers quiet_dns ''archive'' digest ''/cache''"
  by (simp add: sample_installer_def installer_of_def)

definition finished_badly :: "phase \<Rightarrow> bool" where
  "finished_badly ph = (case ph of Finished r \<Rightarrow> \<not> is_ok r | _ \<Rightarrow> False)"

lemma collided:
  "fst (run_schedule (sample_installer key) [1, 1, 1, 1, 2, 2, 2, 2, 1, 1, 2, 2] (started cache_world)) 1
     = Finished (Ok ''/cache/0.13.0-next'')"
  "finished_badly (fst (run_schedule (sample_installer key) [1, 1, 1, 1, 2, 2, 2, 2, 1, 1, 2, 2] (started cache_world)) 2)"
  by code_simp+

lemma cache_world_clean: "clean (tree cache_world) [''cache''] pid"
proof -
  have "no_link (tree cache_world) [''cache'', n]" for n
    by (simp add: cache_world_def no_link_def)
  moreover have "no_link (tree cache_world) [''cache'', n, MARKER]" for n
    by (simp add: cache_world_def no_link_def MARKER_def)
  ultimately show ?thesis using cache_world_facts(4) by (simp add: clean_def)
qed

lemma racing_keeps_staging_witness:
  "\<exists>ph w ph' w' m. reachable (sample_installer ''k'') cache_world (ph, w) \<and> ph 1 = Rechecking \<and>
     (cache_step (sample_installer ''k''))\<^sup>*\<^sup>* (ph, w) (ph', w') \<and> ph' 1 = Clearing \<and> ph' 2 = Rechecking \<and>
     lookup (tree w') [''cache'', staging_name 1, MARKER] = Some (File m ''k'') \<and>
     lookup (tree w') [''cache'', staging_name 1] = lookup (tree w) [''cache'', staging_name 1]"
proof -
  let ?I = "sample_installer ''k''"
  have s: "fst (run_schedule ?I [1, 2, 1] (started cache_world)) 1 = Rechecking"
    "fst (run_schedule ?I [2, 1] (run_schedule ?I [1, 2, 1] (started cache_world))) 1 = Clearing"
    "fst (run_schedule ?I [2, 1] (run_schedule ?I [1, 2, 1] (started cache_world))) 2 = Rechecking"
    by code_simp+
  obtain ph w where r: "run_schedule ?I [1, 2, 1] (started cache_world) = (ph, w)" by fastforce
  obtain ph' w' where r': "run_schedule ?I [2, 1] (ph, w) = (ph', w')" by fastforce
  have reach: "reachable ?I cache_world (ph, w)" "(cache_step ?I)\<^sup>*\<^sup>* (ph, w) (ph', w')"
    using run_schedule_reachable [OF r] run_schedule_steps [of ?I "(ph, w)" "[2, 1]"] r' by simp_all
  have ph: "ph 1 = Rechecking" "ph' 1 = Clearing" "ph' 2 = Rechecking" using s r r' by simp_all
  have "unpack_laws (i_unpackers ?I) (i_archive ?I)" "reaches (i_root ?I) [''cache'']"
    using sample_unpackers_laws cache_world_facts(1) by (simp_all add: sample_installer_def)
  from conjunct2 [OF racing_keeps_staging [OF this allI [OF cache_world_clean] reach], rule_format, of 1] ph
  obtain m where "lookup (tree w') ([''cache''] @ [staging_name 1, MARKER]) = Some (File m (i_key ?I))"
    "lookup (tree w') ([''cache''] @ staging_name 1 # []) = lookup (tree w) ([''cache''] @ staging_name 1 # [])" by auto
  then show ?thesis
    using reach ph by (simp only: append_Cons append_Nil sample_installer_def installer.simps) blast
qed

text \<open>Process 1 has returned the directory while process 2 stands between its second check and the move:
  in the one case it then removes that directory, in the other it fails.\<close>

abbreviation abc_installer :: installer where
  "abc_installer \<equiv> installer_of sample_unpackers quiet_dns ''archive'' ''abc'' ''/cache''"

definition marked_as :: "string \<Rightarrow> world \<Rightarrow> bool" where
  "marked_as key w = (case stat w (join (join ''/cache'' VERSION) MARKER) of Inr (File m c) \<Rightarrow> c = key | _ \<Rightarrow> False)"

lemma marked_as_recorded: "marked_as (cache_key ''abc'') w \<Longrightarrow> marker_recorded w (join ''/cache'' VERSION) (cache_key ''abc'')"
  using cache_key_ascii(2,3) [OF cache_world_facts(5)]
  by (auto simp: marked_as_def marker_recorded_def split: sum.splits node.splits)

lemma window_schedules:
  "fst (run_schedule (sample_installer key) [1, 1, 1, 2, 2, 2, 1, 1, 1] (started cache_world)) 1 = Finished (Ok ''/cache/0.13.0-next'')"
  "fst (run_schedule (sample_installer key) [1, 1, 1, 2, 2, 2, 1, 1, 1] (started cache_world)) 2 = Clearing"
  "marked_as key (snd (run_schedule (sample_installer key) [1, 1, 1, 2, 2, 2, 1, 1, 1] (started cache_world)))"
  "fst (run_schedule (sample_installer key) [1, 1, 1, 1, 2, 2, 2, 2, 1, 1] (started cache_world)) 1 = Finished (Ok ''/cache/0.13.0-next'')"
  "fst (run_schedule (sample_installer key) [1, 1, 1, 1, 2, 2, 2, 2, 1, 1] (started cache_world)) 2 = Renaming"
  "marked_as key (snd (run_schedule (sample_installer key) [1, 1, 1, 1, 2, 2, 2, 2, 1, 1] (started cache_world)))"
  by code_simp+

lemmas abc_schedules = window_schedules [of "cache_key ''abc''", unfolded sample_installer_of]

lemma racing_install_window_witness:
  "(\<exists>ph w ph' w'. reachable abc_installer cache_world (ph, w) \<and> ph 1 = Finished (Ok ''/cache/0.13.0-next'') \<and>
      (cache_step abc_installer)\<^sup>*\<^sup>* (ph, w) (ph', w') \<and> ph' 1 = ph 1 \<and> lookup (tree w') [''cache'', VERSION] = None) \<and>
   (\<exists>ph w ph' w' e. reachable abc_installer cache_world (ph, w) \<and> ph 1 = Finished (Ok ''/cache/0.13.0-next'') \<and>
      cache_step abc_installer (ph, w) (ph', w') \<and> ph' 2 = Dropping (Err e))"
proof (intro conjI)
  obtain ph w where r: "run_schedule abc_installer [1, 1, 1, 2, 2, 2, 1, 1, 1] (started cache_world) = (ph, w)" by fastforce
  have at: "ph 1 = Finished (Ok ''/cache/0.13.0-next'')" "ph 2 = Clearing" "marker_recorded w (join ''/cache'' VERSION) (cache_key ''abc'')"
    using abc_schedules(1-3) marked_as_recorded unfolding r by simp_all
  note reach = run_schedule_reachable [OF r]
  from racing_install_window [OF sample_unpackers_laws cache_world_facts(1) allI [OF cache_world_clean] cache_world_facts(3,5) reach at(3), of 2] at(2)
  obtain w1 w2 where "cache_step abc_installer (ph, w) (ph(2 := Removing), w1)"
    "cache_step abc_installer (ph(2 := Removing), w1) (ph(2 := Renaming), w2)" "lookup (tree w2) [''cache'', VERSION] = None" by auto
  moreover from this(1,2) have "(cache_step abc_installer)\<^sup>*\<^sup>* (ph, w) (ph(2 := Renaming), w2)"
    by (meson rtranclp.rtrancl_into_rtrancl r_into_rtranclp)
  moreover have "(ph(2 := Renaming)) 1 = ph 1" by simp
  ultimately show "\<exists>ph w ph' w'. reachable abc_installer cache_world (ph, w) \<and> ph 1 = Finished (Ok ''/cache/0.13.0-next'') \<and>
      (cache_step abc_installer)\<^sup>*\<^sup>* (ph, w) (ph', w') \<and> ph' 1 = ph 1 \<and> lookup (tree w') [''cache'', VERSION] = None"
    using reach at(1) by blast
next
  obtain ph w where r: "run_schedule abc_installer [1, 1, 1, 1, 2, 2, 2, 2, 1, 1] (started cache_world) = (ph, w)" by fastforce
  have at: "ph 1 = Finished (Ok ''/cache/0.13.0-next'')" "ph 2 = Renaming" "marker_recorded w (join ''/cache'' VERSION) (cache_key ''abc'')"
    using abc_schedules(4-6) marked_as_recorded unfolding r by simp_all
  note reach = run_schedule_reachable [OF r]
  from racing_install_window [OF sample_unpackers_laws cache_world_facts(1) allI [OF cache_world_clean] cache_world_facts(3,5) reach at(3), of 2] at(2)
  obtain e w1 where "cache_step abc_installer (ph, w) (ph(2 := Dropping (Err e)), w1)" by auto
  moreover have "(ph(2 := Dropping (Err e))) 2 = Dropping (Err e)" by simp
  ultimately show "\<exists>ph w ph' w' e. reachable abc_installer cache_world (ph, w) \<and> ph 1 = Finished (Ok ''/cache/0.13.0-next'') \<and>
      cache_step abc_installer (ph, w) (ph', w') \<and> ph' 2 = Dropping (Err e)"
    using reach at(1) by blast
qed

lemma racing_installs_settle_witness:
  "\<exists>w. marker_recorded w (join ''/cache'' VERSION) (cache_key ''abc'')"
proof -
  let ?I = "sample_installer (cache_key ''abc'')" and ?sched = "[1, 1, 1, 1, 2, 2, 2, 2, 1, 1, 2, 2]"
  obtain ph w where r: "run_schedule ?I ?sched (started cache_world) = (ph, w)" by fastforce
  have "ph 1 = Finished (Ok ''/cache/0.13.0-next'')" "\<exists>e. ph 2 = Finished (Err e)"
    using collided [of "cache_key ''abc''"] r
    by (auto simp: finished_badly_def is_ok_iff split: phase.splits) (metis sum.exhaust)
  moreover have "ph p = Checking" if "p \<noteq> 1" "p \<noteq> 2" for p
    using untouched [of p ?sched ?I "started cache_world"] that r by (simp add: started_def)
  ultimately have fin: "\<forall>p. ph p = Checking \<or> (\<exists>r. ph p = Finished r)" by metis
  have reach: "reachable (installer_of sample_unpackers quiet_dns ''archive'' ''abc'' ''/cache'') cache_world (ph, w)"
    using run_schedule_reachable [OF r] by (simp add: sample_installer_of)
  from racing_installs_settle [OF sample_unpackers_laws cache_world_facts(1) allI [OF cache_world_clean]
      cache_world_facts(3,5) reach fin \<open>ph 1 = _\<close>]
  show ?thesis by blast
qed

end
