(* ===== verification/Liveness.thy ===== *)
theory Liveness
  imports VmRootfsSamples
begin

text \<open>
  What succeeds where nothing fails: on a host without I/O faults the calls of the program on
  directories it can reach return normally, so an installation installs and a build reaches its runner.
\<close>

subsection \<open>Calls\<close>

lemma make_dirs_works:
  assumes "no_faults w" "dir_at (tree w) cur" "direct (tree w) (cur @ q)"
  shows "fst (make_dirs cur (map Normal q) w) = Ok ()"
  using assms
proof (induction q arbitrary: cur w)
  case (Cons n q)
  show ?case
  proof (cases "lookup (tree w) (cur @ [n])")
    case None
    obtain w1 where f: "next_fault w = (None, w1)" "no_faults w1" "tree w1 = tree w"
      using no_faultsD [OF Cons.prems(1)] by blast
    let ?w = "w1\<lparr>tree := insert_at (cur @ [n]) (Dir []) (tree w1)\<rparr>"
    have mk: "mkdir_at (cur @ [n]) w = (Ok (), ?w)" using f by (simp add: mkdir_at_def)
    note new = mkdir_at_new [OF mk None]
    have l: "lookup (tree ?w) (cur @ [n]) = Some (Dir [])" using new(2) Cons.prems(2) by simp
    have "direct (tree ?w) ((cur @ [n]) @ q)"
      using direct_new_dir [OF None l] new(1) Cons.prems(2) by (simp add: made_on_def)
    moreover have "dir_at (tree ?w) (cur @ [n])" using l by (simp add: dir_at_lookup)
    ultimately show ?thesis
      using Cons.IH [of ?w "cur @ [n]"] None mk f(2) by simp
  next
    case (Some m)
    have d: "dir_at (tree w) (cur @ [n])"
      using direct_child_dir [OF _ Some] Cons.prems(3) by simp
    then obtain es where "lookup (tree w) (cur @ [n]) = Some (Dir es)" by (auto simp: dir_at_lookup)
    with Cons.IH [OF Cons.prems(1) d] Cons.prems(3) show ?thesis by simp
  qed
qed simp

lemma create_dir_all_works:
  assumes "no_faults w" "reaches p q" "direct (tree w) q"
  shows "fst (create_dir_all p w) = Ok ()"
proof -
  have "dir_at (tree w) []"
    using direct_lookup [OF direct_prefix [OF assms(3), of "[]"]] by (simp add: dir_at_def)
  then show ?thesis
    using make_dirs_works [OF assms(1), of "[]" q] assms reaches_nonempty [OF assms(2)]
    by (simp add: create_dir_all_def reaches_def)
qed

definition writable :: "node \<Rightarrow> string list \<Rightarrow> bool" where
  "writable r q = (lookup r q = None \<or> file_at r q)"

lemma writable_cases: "writable r q \<Longrightarrow> lookup r q = None \<or> (\<exists>m c. lookup r q = Some (File m c))"
  by (auto simp: writable_def file_at_def split: option.splits elim: is_file_node.elims)

lemma open_at_works:
  assumes "writable (tree w) q" "dir_at (tree w) (butlast q)" "q \<noteq> []"
  shows "\<exists>m. open_at q w = (Ok q, w\<lparr>tree := insert_at q (File m []) (tree w)\<rparr>)"
  using writable_cases [OF assms(1)] by (auto simp: open_at_def)

lemma write_all_works:
  assumes "no_faults w" "file_at (tree w) q"
  shows "fst (write_all q data w) = Ok ()"
proof -
  obtain w1 where "next_fault w = (None, w1)" using no_faultsD [OF assms(1)] by blast
  with assms(2) show ?thesis
    by (auto simp: write_all_def file_at_def split: option.splits node.splits)
qed

lemma fs_write_works:
  assumes "no_faults w" "reaches p (q @ [n])" "dir_at (tree w) q" "writable (tree w) (q @ [n])"
  shows "fst (fs_write p data w) = Ok ()"
proof -
  obtain w1 where f: "next_fault w = (None, w1)" "no_faults w1" "tree w1 = tree w" "cwd w1 = cwd w"
    using no_faultsD [OF assms(1)] by blast
  have at: "resolve_parent w1 p = Ok (q, n)"
    using resolve_parent_direct [OF assms(2), of w1] direct_dir_at [OF assms(3)] assms(3) f by simp
  obtain m where o: "open_at (q @ [n]) w1 = (Ok (q @ [n]), w1\<lparr>tree := insert_at (q @ [n]) (File m []) (tree w1)\<rparr>)"
    using open_at_works [of w1 "q @ [n]"] assms(3,4) f by auto
  have "open_truncate False p w = open_at (q @ [n]) w1"
    using writable_cases [OF assms(4)] f at by (auto simp: open_truncate_def)
  moreover have "file_at (insert_at (q @ [n]) (File m []) (tree w1)) (q @ [n])"
    using assms(3) f by (simp add: file_at_def insert_at_same)
  ultimately show ?thesis
    using o write_all_works f(2) by (simp add: fs_write_def)
qed

subsection \<open>Installing\<close>

text \<open>An archive that can be decoded and unpacks into an empty directory, without a directory of the
  marker's name.\<close>

definition unpacks :: "unpackers \<Rightarrow> string \<Rightarrow> bool" where
  "unpacks U archive =
     (is_ok (zstd_decoder U archive) \<and>
      (\<forall>p q n w. reaches p (q @ [n]) \<longrightarrow> no_faults w \<longrightarrow> lookup (tree w) (q @ [n]) = Some (Dir []) \<longrightarrow>
         is_ok (fst (tar_unpack U archive p w)) \<and>
         writable (tree (snd (tar_unpack U archive p w))) (q @ [n, MARKER])))"

lemma unpacksD:
  assumes "unpacks U archive"
  shows "\<exists>u. zstd_decoder U archive = Inr u"
    "reaches p (q @ [n]) \<Longrightarrow> no_faults w \<Longrightarrow> lookup (tree w) (q @ [n]) = Some (Dir []) \<Longrightarrow>
       \<exists>w'. tar_unpack U archive p w = (Inr (), w') \<and> writable (tree w') (q @ [n, MARKER])"
proof -
  show "\<exists>u. zstd_decoder U archive = Inr u" using assms by (simp add: unpacks_def is_ok_iff)
  assume "reaches p (q @ [n])" "no_faults w" "lookup (tree w) (q @ [n]) = Some (Dir [])"
  with assms have "is_ok (fst (tar_unpack U archive p w))" "writable (tree (snd (tar_unpack U archive p w))) (q @ [n, MARKER])"
    by (simp_all add: unpacks_def)
  then show "\<exists>w'. tar_unpack U archive p w = (Inr (), w') \<and> writable (tree w') (q @ [n, MARKER])"
    by (cases "tar_unpack U archive p w") (auto simp: is_ok_iff)
qed

lemma stage_works:
  assumes "no_faults w" "unpack_laws U archive" "unpacks U archive" "reaches p (q @ [n])" "direct (tree w) q"
    "no_link (tree w) (q @ [n])" "no_link (tree w) (q @ [n, MARKER])" "\<not> file_at (tree w) (q @ [n])"
  shows "is_ok (fst (stage U archive key p w))"
proof -
  obtain res w' where run: "stage U archive key p w = (res, w')" by fastforce
  from run have "is_ok res"
  proof (cases rule: stage_outcomes)
    case (not_removed e)
    with stale_removed_works [OF not_removed(1) assms(1,4-6,8)] show ?thesis by simp
  next
    case (not_created w2 r)
    have "no_faults w2" "direct (tree w2) (q @ [n])"
      using stale_removed_direct [OF not_created(1) assms(4,5)] stale_removed_no_faults(1) [OF not_created(1) assms(4-6,1)]
        assms(1) worked.sound_after by (auto simp: direct_snoc)
    from create_dir_all_works [OF this(1) assms(4) this(2)] not_created(2,4) unpacksD(1) [OF assms(3)]
    show ?thesis by auto
  next
    case (not_unpacked w2 w3 e)
    note prep = staging_prepared [OF not_unpacked(1,2) assms(4-6)]
    from unpacksD(2) [OF assms(3,4) prep(4,5)] assms(1) not_unpacked(3) show ?thesis by simp
  next
    case (written w2 w3 w4 r)
    note prep = staging_prepared [OF written(1,2) assms(4-6)]
    have dir: "dir_at (tree w3) (q @ [n])" using prep(2) by simp
    have "writable (tree w4) ((q @ [n]) @ [MARKER])"
      using unpacksD(2) [OF assms(3,4) prep(4,5)] assms(1) written(3) by auto
    moreover have "reaches (join p MARKER) ((q @ [n]) @ [MARKER])" using reaches_join [OF assms(4)] by simp
    moreover note un = unpackD [OF assms(2,4) dir written(3)]
    ultimately have "fst (fs_write (join p MARKER) key w4) = Ok ()"
      using fs_write_works un(2,4) prep(4) assms(1) by blast
    with written(4,5) show ?thesis by simp
  qed
  with run show ?thesis by simp
qed

text \<open>On a host without I/O faults, with an archive that unpacks, an installation succeeds: it returns
  the directory of the version, whatever an earlier version, a damaged rootfs or a run that was killed
  has left in the cache.\<close>
lemma install_works:
  assumes "no_faults w" "unpack_laws U archive" "unpacks U archive" "archive \<noteq> []" "reaches root q"
    "clean (tree w) q pid" "\<not> file_at (tree w) (q @ [staging_name pid])" "\<not> file_at (tree w) (q @ [VERSION])"
  shows "\<exists>w'. install U h pid archive digest root w = (Ok (join root VERSION), w')"
proof -
  let ?dir = "join root VERSION" and ?st = "join root (staging_name pid)"
  obtain res w' where run: "install U h pid archive digest root w = (res, w')" by fastforce
  have rd: "reaches ?dir (q @ [VERSION])" and rs: "reaches ?st (q @ [staging_name pid])"
    using reaches_join [OF assms(5)] by simp_all
  note staged = staged_effect [OF _ _ assms(2,5,6)]
  note nf = staged_no_faults [OF _ _ assms(2,5,6,1,7)]
  have "res = Ok ?dir"
    using assms(4) run
  proof (cases rule: install_outcomes)
    case (not_staged w1 w2 e)
    have s: "same_files w w1" using staged(1) [OF not_staged(1,2)] .
    moreover have "no_faults w1" using no_faults_already_installed [OF not_staged(1) assms(1)] .
    ultimately have "is_ok (fst (stage U archive (cache_key digest) ?st w1))"
      using stage_works [OF _ assms(2,3) rs, of w1] assms(6,7) by (simp add: same_files_def clean_def)
    with not_staged(2) show ?thesis by simp
  next
    case (stale w1 w2 w3 w4 e)
    have "no_faults w3" using no_faults_already_installed [OF stale(3) nf(1) [OF stale(1,2)]] .
    moreover note c = clean_worked [OF assms(6) second_check(1) [OF stale(1-3) assms(2,5,6)]]
    ultimately have "Inl e = Ok ()"
      using stale_removed_works [OF stale(4) _ rd] c(1,2) c(4) [of "[]"] assms(8) by (auto simp: file_at_def)
    then show ?thesis by simp
  next
    case (not_moved w1 w2 w3 w4 w5 e)
    with staged_moves [OF not_moved(1-4) assms(2,5,6,1,7)] show ?thesis by simp
  qed auto
  with run show ?thesis by blast
qed


subsection \<open>Building in a VM\<close>

lemma canonicalize_works:
  assumes "no_faults w" "leads_to w p q" "p \<noteq> []"
  shows "\<exists>w1. canonicalize p what w = (Ok (path_string q), w1) \<and> no_faults w1 \<and> same_files w w1"
proof -
  obtain w1 where f: "next_fault w = (None, w1)" "no_faults w1" "tree w1 = tree w" "cwd w1 = cwd w"
    using no_faultsD [OF assms(1)] by blast
  then have "resolve w1 p = Ok q" using assms(2,3) by (simp add: resolve_leads_to leads_to_def)
  with f show ?thesis by (simp add: canonicalize_def canonicalize_path_def same_files_def)
qed

lemma write_containerfile_works:
  assumes "no_faults w" "leads_to w ctx d" "dir_at (tree w) d" "writable (tree w) (d @ [CONTAINERFILE_NAME])"
  shows "\<exists>w'. write_containerfile ctx cf w = (Ok (), w') \<and> no_faults w'"
proof -
  let ?q = "d @ [CONTAINERFILE_NAME]"
  obtain w1 where f: "next_fault w = (None, w1)" "no_faults w1" "tree w1 = tree w" "cwd w1 = cwd w"
    using no_faultsD [OF assms(1)] by blast
  have at: "resolve_parent w1 (join ctx CONTAINERFILE_NAME) = Ok (d, CONTAINERFILE_NAME)"
    using resolve_parent_join [OF plain_CONTAINERFILE_NAME, of w1 ctx d CONTAINERFILE_NAME] assms(2,3) f
    by (simp add: leads_to_def)
  obtain m where "open_at ?q w1 = (Ok ?q, w1\<lparr>tree := insert_at ?q (File m []) (tree w1)\<rparr>)"
    using open_at_works [of w1 ?q] assms(3,4) f by auto
  then have o: "open_truncate True (join ctx CONTAINERFILE_NAME) w =
      (Ok ?q, w1\<lparr>tree := insert_at ?q (File m []) (tree w1)\<rparr>)" (is "_ = (_, ?w2)")
    using writable_cases [OF assms(4)] f at by (auto simp: open_truncate_def)
  have "file_at (tree ?w2) ?q" using assms(3) f by (simp add: file_at_def insert_at_same)
  moreover have "no_faults ?w2" using f by simp
  ultimately obtain w3 where w3: "write_all ?q cf ?w2 = (Inr (), w3)" using write_all_works by (metis prod.collapse)
  moreover have "no_faults w3"
    using w3 \<open>no_faults ?w2\<close>
    by (auto simp: write_all_def split: prod.splits option.splits node.splits dest: no_faults_next)
  ultimately show ?thesis using o by (simp add: write_containerfile_def Let_def)
qed

lemma create_dir_all_there:
  assumes "reaches p q" "dir_at (tree w) q"
  shows "create_dir_all p w = (Ok (), w)"
  using make_dirs_existing [of w "[]" q "[]"] assms reaches_nonempty [OF assms(1)]
  by (simp add: create_dir_all_def reaches_def)

text \<open>C8. On a host without I/O faults a VM build with a usable rootfs, a context whose Containerfile can
  be written, and an output in a directory that is there, reaches its runner with a resolved request.\<close>
theorem build_reaches_runner:
  assumes "no_faults w" "usable_rootfs w (rootfs config)" "ctx \<noteq> []" "leads_to w ctx d" "dir_at (tree w) d"
    "writable (tree w) (d @ [CONTAINERFILE_NAME])" "file_name output = Some name"
    "reaches (output_parent output) out" "dir_at (tree w) out"
  shows "\<exists>req w'. (\<forall>runner. VmImageBuilder.build cf tag config runner ctx output w = runner_run runner req w') \<and>
    request_resolved cf tag config ctx output w req w'"
proof -
  obtain w1 where 1: "check_rootfs config w = (Inr (), w1)"
    using check_rootfs_accepts [OF assms(1), of config] assms(2) by (metis is_ok_iff old.unit.exhaust prod.collapse)
  have s1: "same_files w w1" "no_faults w1"
    using check_rootfs_same [OF 1] no_faults_check_rootfs [OF 1 assms(1)] by simp_all
  obtain w2 where 2: "write_containerfile ctx cf w1 = (Inr (), w2)" "no_faults w2"
    using write_containerfile_works [OF s1(2), of ctx d cf] assms(4-6) leads_to_same [OF s1(1)] s1(1)
    by (auto simp: same_files_def)
  note ext = build_written(3) [OF 1 2(1)]
  have cwd: "cwd w2 = cwd w" using build_written(1) [OF 1 2(1)] by (simp add: build_progress_def)
  obtain r where r: "leads_to w (rootfs config) r" "rootfs config \<noteq> []"
    using assms(2) by (auto simp: usable_rootfs_def stat_in_def resolve_leads_to split: sum.splits)
  have "leads_to w2 (rootfs config) r" "leads_to w2 ctx d" "dir_at (tree w2) out"
    using leads_to_extends [OF _ ext cwd] r(1) assms(4,9) extends_dir_at [OF ext] by blast+
  then obtain w3 where 3: "canonicalize (rootfs config) ''VM rootfs'' w2 = (Ok (path_string r), w3)" "no_faults w3" "same_files w2 w3"
    using canonicalize_works [OF 2(2) _ r(2)] by blast
  then obtain w4 where 4: "canonicalize ctx ''build context'' w3 = (Ok (path_string d), w4)" "no_faults w4" "same_files w3 w4"
    using canonicalize_works [OF 3(2) _ assms(3), of d] leads_to_same [OF 3(3)] \<open>leads_to w2 ctx d\<close> by blast
  have out: "dir_at (tree w4) out" using \<open>dir_at (tree w2) out\<close> 3(3) 4(3) by (simp add: same_files_def)
  note 5 = create_dir_all_there [OF assms(8) out]
  obtain w6 where 6: "canonicalize (output_parent output) ''output directory'' w4 = (Ok (path_string out), w6)"
    using canonicalize_works [OF 4(2) leads_to_direct [OF assms(8) out] reaches_nonempty [OF assms(8)]] by blast
  have ok: "fst (VmImageBuilder.build cf tag config accepting_runner ctx output w) = Ok ()"
    by (simp add: VmImageBuilder.build_def 1 2 3 4 5 6 assms(7) accepting_runner_def)
  obtain prepared w' where p: "\<forall>runner. VmImageBuilder.build cf tag config runner ctx output w =
      (case prepared of Inl e \<Rightarrow> (Err e, w') | Inr req \<Rightarrow> runner_run runner req w')"
    and res: "\<forall>req. prepared = Ok req \<longrightarrow> request_resolved cf tag config ctx output w req w'"
    using build_request by blast
  obtain req where "prepared = Inr req" using p ok by (cases prepared) auto
  with p res show ?thesis by auto
qed


subsection \<open>At the samples\<close>

lemma sample_unpacks: "unpacks sample_unpackers ''archive''"
  unfolding unpacks_def
proof (intro conjI allI impI)
  show "is_ok (zstd_decoder sample_unpackers ''archive'')" by (simp add: sample_unpackers_def)
  fix p q n and w :: world
  assume r: "reaches p (q @ [n])" and e: "lookup (tree w) (q @ [n]) = Some (Dir [])"
  have "resolve w p = Ok (q @ [n])"
    using leads_to_direct [OF r] reaches_nonempty [OF r] e by (simp add: resolve_leads_to dir_at_lookup)
  moreover have "dir_at (tree w) q" using e lookup_no_dir [of "tree w" q n] by auto
  then have "lookup (insert_at (q @ [n]) sample_rootfs (tree w)) ((q @ [n]) @ [MARKER]) = lookup sample_rootfs [MARKER]"
    using lookup_insert_at [of "q @ [n]"] by simp
  moreover have "lookup sample_rootfs [MARKER] = None" by code_simp
  ultimately show "is_ok (fst (tar_unpack sample_unpackers ''archive'' p w))"
    "writable (tree (snd (tar_unpack sample_unpackers ''archive'' p w))) (q @ [n, MARKER])"
    by (simp_all add: sample_unpackers_def writable_def)
qed

lemma build_reaches_runner_witness:
  "\<exists>req w'. request_resolved ''FROM x'' ''t'' sample_config ''/context'' ''/x.img'' sample_world req w'"
proof -
  have nf: "no_faults sample_world" by (simp add: no_faults_def sample_world_def)
  have "is_ok (fst (check_rootfs sample_config sample_world))" by code_simp
  then have u: "usable_rootfs sample_world (rootfs sample_config)"
    using check_rootfs_accepts [OF nf] by blast
  have "dir_at (tree sample_world) [''context'']" "lookup (tree sample_world) ([''context''] @ [CONTAINERFILE_NAME]) = None"
    "dir_at (tree sample_world) []" "output_parent ''/x.img'' = ''/''" "file_name ''/x.img'' = Some ''x.img''"
    by code_simp+
  moreover have "reaches ''/'' []" by (simp add: reaches_def) code_simp
  ultimately show ?thesis
    using build_reaches_runner [OF nf u _ sample_leads, of "''/x.img''" "''x.img''" "[]" "''FROM x''" "''t''"]
    by (auto simp: writable_def)
qed

end
