(* ===== verification/Crash.thy ===== *)
theory Crash
  imports InstallRaceSamples Liveness
begin

text \<open>
  Installations that are killed. A process may end at any moment, also in the middle of a call, which is
  then one that failed having done any part of its work; its id may be taken by a new process. What
  that leaves in the cache never stands in the way of a later installation.
\<close>

subsection \<open>An entry an installation can work with\<close>

text \<open>It is missing or a directory, and the marker in it is no link.\<close>

definition usable_entry :: "node \<Rightarrow> string list \<Rightarrow> string \<Rightarrow> bool" where
  "usable_entry r q n = (direct r (q @ [n]) \<and> no_link r (q @ [n, MARKER]))"

lemma usable_entryI:
  assumes "direct r q" "lookup r (q @ [n]) = None \<or> dir_at r (q @ [n]) \<and> no_link r (q @ [n, MARKER])"
  shows "usable_entry r q n"
  using assms lookup_below_none [of r "q @ [n]" "[MARKER]"]
  by (auto simp: usable_entry_def direct_snoc no_link_def dir_at_def split: option.splits)

lemma usable_entry_same:
  assumes "usable_entry r q n" "direct r' q" "\<forall>s. lookup r' (q @ n # s) = lookup r (q @ n # s)"
  shows "usable_entry r' q n"
  using assms(1,2) spec [OF assms(3), of "[]"] spec [OF assms(3), of "[MARKER]"]
  by (simp add: usable_entry_def direct_snoc no_link_def)

lemma usable_entry_facts:
  assumes "usable_entry r q n"
  shows "direct r q" "no_link r (q @ [n])" "no_link r (q @ [n, MARKER])" "\<not> file_at r (q @ [n])"
  using assms
  by (auto simp: usable_entry_def direct_snoc no_link_def file_at_def split: option.splits elim!: is_dir_node.elims)

text \<open>Every operation of an installation keeps an entry usable, also when it fails half way.\<close>

lemma map_of_pruned:
  "map_of (map (\<lambda>(k, n). (k, f k n)) (filter (\<lambda>(k, n). P k) es)) x =
     (if P x then map_option (f x) (map_of es x) else None)"
  by (induction es) auto

lemma pruned_no_link:
  assumes "no_link (Dir es) [x]"
  shows "no_link (pruned kept at (Dir es)) [x]"
proof -
  have "is_symlink_node (pruned kept at' n) = is_symlink_node n" for at' n by (cases n) simp_all
  then show ?thesis using assms by (auto simp: no_link_def map_of_pruned split: option.splits)
qed

lemma usable_remove_dir_all:
  assumes "remove_dir_all p w = (res, w')" "reaches p (q @ [n])" "usable_entry (tree w) q n"
  shows "usable_entry (tree w') q n"
proof -
  have d: "direct (tree w) q" and nl: "no_link (tree w) (q @ [n, MARKER])"
    using usable_entry_facts [OF assms(3)] by simp_all
  note rem = remove_dir_all_direct [OF assms(1,2) d]
  have d': "direct (tree w') q" using touched_direct [OF rem(1) d] .
  show ?thesis
  proof (cases "tree w' = tree w \<or> res = Ok ()")
    case True
    then show ?thesis using assms(3) rem(2) usable_entryI [OF d'] by auto
  next
    case False
    then have dir: "dir_at (tree w) q" using rem(1) by (auto simp: touched_def)
    then have at: "resolve_parent w p = Ok (q, n)" using resolve_parent_direct [OF assms(2) d] by simp
    obtain f w1 where f: "next_fault w = (f, w1)" by fastforce
    then have "tree w1 = tree w" by (simp add: next_faultD)
    with False assms(1) at f have "\<exists>kept es. lookup (tree w) (q @ [n]) = Some (Dir es) \<and>
        tree w' = insert_at (q @ [n]) (pruned kept [] (Dir es)) (tree w)"
      by (auto simp: remove_dir_all_def simp del: pruned.simps split: option.splits node.splits)
    then obtain kept es where es: "lookup (tree w) (q @ [n]) = Some (Dir es)"
      "tree w' = insert_at (q @ [n]) (pruned kept [] (Dir es)) (tree w)" by blast
    then have l: "lookup (tree w') ((q @ [n]) @ s) = lookup (pruned kept [] (Dir es)) s" for s
      using dir lookup_insert_at [of "q @ [n]"] by simp
    have "no_link (Dir es) [MARKER]"
      using nl es(1) lookup_append [of "tree w" "q @ [n]" "[MARKER]"] by (simp add: no_link_def)
    then have "no_link (pruned kept [] (Dir es)) [MARKER]" by (rule pruned_no_link)
    then have "no_link (tree w') (q @ [n, MARKER])" using l [of "[MARKER]"] by (simp only: no_link_def append_assoc append_Cons append_Nil)
    moreover have "dir_at (tree w') (q @ [n])" using l [of "[]"] by (simp add: dir_at_def)
    ultimately show ?thesis by (intro usable_entryI [OF d']) blast
  qed
qed

lemma fs_write_no_link:
  assumes "fs_write p data w = (res, w')" "reaches p (q @ [n])" "dir_at (tree w) q" "no_link (tree w) (q @ [n])"
  shows "no_link (tree w') (q @ [n])"
proof -
  obtain f w1 where f: "next_fault w = (f, w1)" by fastforce
  then have w1: "tree w1 = tree w" "cwd w1 = cwd w" by (simp_all add: next_faultD)
  have at: "resolve_parent w1 p = Ok (q, n)"
    using resolve_parent_direct [OF assms(2), of w1] direct_dir_at assms(3) w1 by simp
  obtain r2 w2 where o: "open_at (q @ [n]) w1 = (r2, w2)" by fastforce
  show ?thesis
  proof (cases f)
    case (Some g)
    with assms(1) f w1 show ?thesis using assms(4) by (simp add: fs_write_def open_truncate_def)
  next
    case None
    then have op: "open_truncate False p w = (r2, w2)"
      using f at w1 assms(4) o by (auto simp: open_truncate_def no_link_def split: option.split node.split)
    show ?thesis
    proof (cases r2)
      case (Inl e)
      with o have "w2 = w1" by (auto simp: open_at_def split: option.splits node.splits)
      with Inl op assms(1,4) w1 show ?thesis by (simp add: fs_write_def)
    next
      case (Inr q')
      obtain m where "q' = q @ [n]" "lookup (tree w2) (q @ [n]) = Some (File m [])"
        using open_at_cases [OF o [unfolded Inr]] assms(3) w1 by auto
      moreover from this have "write_all (q @ [n]) data w2 = (res, w')" using assms(1) op Inr by (simp add: fs_write_def)
      ultimately obtain c where "lookup (tree w') (q @ [n]) = Some (File m c)" using write_all_cases by blast
      then show ?thesis by (simp add: no_link_def)
    qed
  qed
qed

lemma usable_stage:
  assumes "stage U archive key p w = (res, w')" "unpack_laws U archive" "reaches p (q @ [n])"
    "usable_entry (tree w) q n"
  shows "usable_entry (tree w') q n"
proof -
  note here = usable_entry_facts [OF assms(4)]
  have removed: "usable_entry (tree w2) q n" if s: "stale_removed p w r w2" for r w2
  proof -
    obtain there w1 where "path_exists p w = (there, w1)" "(if there then remove_dir_all p w1 else (Ok (), w1)) = (r, w2)"
      using s by (auto simp: stale_removed_def)
    moreover from this(1) have "tree w1 = tree w" using path_exists_same by (simp add: same_files_def)
    ultimately show ?thesis
      using usable_remove_dir_all [OF _ assms(3), of w1 r w2] assms(4) by (cases there) simp_all
  qed
  from assms(1) show ?thesis
  proof (cases rule: stage_outcomes)
    case (not_removed e)
    then show ?thesis using removed by blast
  next
    case (not_created w2 r)
    have "direct (tree w2) (q @ [n])" using removed [OF not_created(1)] by (simp add: usable_entry_def)
    from create_dir_all_direct(2) [OF not_created(2) assms(3) this]
      staging_prepared(3) [OF not_created(1,2) assms(3) here(1,2,3)]
    show ?thesis by (simp add: usable_entry_def)
  next
    case (not_unpacked w2 w3 e)
    note prep = staging_prepared [OF not_unpacked(1,2) assms(3) here(1,2)]
    from unpackD(2,3) [OF assms(2,3) prep(2) not_unpacked(3)] prep(3) [OF here(3)]
    show ?thesis by (simp add: usable_entry_def direct_dir_at)
  next
    case (written w2 w3 w4 r)
    note prep = staging_prepared [OF written(1,2) assms(3) here(1,2)]
    have dir: "dir_at (tree w3) (q @ [n])" using prep(2) by simp
    have "reaches (join p MARKER) ((q @ [n]) @ [MARKER])" using reaches_join [OF assms(3)] by simp
    from fs_write_no_link [OF written(4) this] unpackD(2,3) [OF assms(2,3) dir written(3)] prep(3) [OF here(3)]
      staging_marked(2) [OF written(3,4) assms(2,3) dir]
    show ?thesis by (simp add: usable_entry_def direct_dir_at)
  qed
qed

subsection \<open>Processes that are killed\<close>

text \<open>Everything an installation can meet in the cache.\<close>

definition orderly :: "node \<Rightarrow> string list \<Rightarrow> bool" where
  "orderly r q = (usable_entry r q VERSION \<and> (\<forall>p. usable_entry r q (staging_name p)))"

inductive crash_step :: "installer \<Rightarrow> system \<Rightarrow> system \<Rightarrow> bool" for I where
  works: "proc_step I pid (ph pid) w = (p, w') \<Longrightarrow> crash_step I (ph, w) (ph(pid := p), w')"
| killed: "crash_step I (ph, w) (ph(pid := Checking), w)"

inductive_cases crash_stepE: "crash_step I (ph, w) (ph', w')"

lemma orderlyD: "orderly r q \<Longrightarrow> n = VERSION \<or> (\<exists>p. n = staging_name p) \<Longrightarrow> usable_entry r q n"
  by (auto simp: orderly_def)

lemma orderlyI:
  assumes "\<And>n. n = VERSION \<or> (\<exists>p. n = staging_name p) \<Longrightarrow> usable_entry r q n"
  shows "orderly r q"
  using assms by (auto simp: orderly_def)

text \<open>Work at one entry that leaves it usable.\<close>

lemma orderly_worked:
  assumes "orderly (tree w) q" "worked q n w w'" "usable_entry (tree w') q n"
  shows "orderly (tree w') q"
proof (rule orderlyI)
  fix m assume "m = VERSION \<or> (\<exists>p. m = staging_name p)"
  then show "usable_entry (tree w') q m"
    using assms(3) usable_entry_same [OF orderlyD [OF assms(1)] usable_entry_facts(1) [OF assms(3)]]
      worked_beside [OF assms(2)]
    by (cases "m = n") auto
qed

lemma orderly_renamed:
  assumes "orderly (tree w) q" "rename (join root (staging_name pid)) (join root VERSION) w = (Ok (), w')" "reaches root q"
  shows "orderly (tree w') q"
proof (rule orderlyI)
  have rd: "reaches (join root VERSION) (q @ [VERSION])" and rs: "reaches (join root (staging_name pid)) (q @ [staging_name pid])"
    using reaches_join [OF assms(3)] by simp_all
  have st: "usable_entry (tree w) q (staging_name pid)" using orderlyD [OF assms(1)] by blast
  note d = usable_entry_facts(1) [OF st]
  have d': "direct (tree w') q" using rename_inside [OF assms(2) rs rd _ d] by (simp add: inside_def)
  fix n assume n: "n = VERSION \<or> (\<exists>p. n = staging_name p)"
  consider "n = VERSION" | "n = staging_name pid" | "n \<noteq> VERSION" "n \<noteq> staging_name pid" by blast
  then show "usable_entry (tree w') q n"
  proof cases
    case 1
    note mv = rename_moves [OF assms(2) rs rd _ d]
    show ?thesis using 1 st d' mv [of "[]"] mv [of "[MARKER]"] by (simp add: usable_entry_def direct_snoc no_link_def)
  next
    case 2
    have "lookup (tree w') (q @ [staging_name pid]) = None"
      using rename_direct [OF assms(2) rs rd _ d] tree.move_leaves_nothing [of "staging_name pid" VERSION q _ _ "[]"] by auto
    then show ?thesis using 2 usable_entryI [OF d'] by simp
  next
    case 3
    then have "lookup (tree w') (q @ n # s) = lookup (tree w) (q @ n # s)" for s
      using rename_direct [OF assms(2) rs rd _ d] by (auto simp: tree.move_beside)
    then show ?thesis using usable_entry_same [OF orderlyD [OF assms(1) n] d'] by blast
  qed
qed

lemma orderly_swept:
  assumes "orderly (tree w) q" "reaches root q" "direct (tree w) q"
  shows "orderly (tree (sweep_old_versions root (join root VERSION) w)) q"
proof (rule orderlyI)
  fix n assume n: "n = VERSION \<or> (\<exists>p. n = staging_name p)"
  then have "\<not> swept_name VERSION n" using staging_not_swept by (auto simp: swept_name_def)
  moreover have "direct (tree (sweep_old_versions root (join root VERSION) w)) q"
    using sweep_effect(1) [OF assms(2,3)] by (simp add: inside_def)
  ultimately show "usable_entry (tree (sweep_old_versions root (join root VERSION) w)) q n"
    using usable_entry_same [OF orderlyD [OF assms(1) n]] sweep_effect(2) [OF assms(2,3)] by blast
qed

lemma orderly_step:
  assumes "orderly (tree w) q" "proc_step I pid ph w = (ph', w')" "unpack_laws (i_unpackers I) (i_archive I)"
    "reaches (i_root I) q"
  shows "inside q w w' \<and> orderly (tree w') q"
proof -
  let ?dir = "join (i_root I) VERSION" and ?st = "join (i_root I) (staging_name pid)"
  have rd: "reaches ?dir (q @ [VERSION])" and rs: "reaches ?st (q @ [staging_name pid])"
    using reaches_join [OF assms(4)] by simp_all
  have v: "usable_entry (tree w) q VERSION" and u: "usable_entry (tree w) q (staging_name pid)"
    using orderlyD [OF assms(1)] by blast+
  note here = usable_entry_facts [OF u]
  have "may_start q pid ph w" using here by (simp add: may_start_def)
  note as = proc_step_worked [OF assms(2-4) here(1) this]
  have "orderly (tree w') q"
  proof (cases ph)
    case Staging
    obtain r where "stage (i_unpackers I) (i_archive I) (i_key I) ?st w = (r, w')"
      using assms(2) Staging by (auto simp: proc_step_def Let_def split: prod.splits sum.splits)
    then show ?thesis
      using orderly_worked [OF assms(1) _ usable_stage [OF _ assms(3) rs u]] as Staging by (simp add: worked_as_def Let_def)
  next
    case Removing
    obtain r where "remove_dir_all ?dir w = (r, w')"
      using assms(2) Removing by (auto simp: proc_step_def Let_def split: prod.splits sum.splits)
    then show ?thesis
      using orderly_worked [OF assms(1) _ usable_remove_dir_all [OF _ rd v]] as Removing by (simp add: worked_as_def Let_def)
  next
    case (Dropping r)
    have "remove_dir_all ?st w = (fst (remove_dir_all ?st w), w')"
      using assms(2) Dropping by (auto simp: proc_step_def Let_def prod_eq_iff)
    then show ?thesis
      using orderly_worked [OF assms(1) _ usable_remove_dir_all [OF _ rs u]] as Dropping by (simp add: worked_as_def Let_def)
  next
    case Renaming
    then show ?thesis
      using as assms(1) orderly_renamed [OF assms(1) _ assms(4)] by (auto simp: worked_as_def Let_def same_files_def)
  next
    case Sweeping
    then show ?thesis using as orderly_swept [OF assms(1,4) here(1)] by (simp add: worked_as_def Let_def)
  qed (use as assms(1) in \<open>simp_all add: worked_as_def Let_def same_files_def\<close>)
  then show ?thesis using worked_as_effect(1) [OF as assms(4) here(1)] by blast
qed

lemma orderly_clean: "orderly r q \<Longrightarrow> clean r q pid"
  using usable_entry_facts by (simp add: orderly_def clean_def) blast

lemma orderly_reachable:
  assumes "unpack_laws (i_unpackers I) (i_archive I)" "reaches (i_root I) q" "orderly (tree w0) q"
    "(crash_step I)\<^sup>*\<^sup>* (started w0) s"
  shows "inside q w0 (snd s) \<and> orderly (tree (snd s)) q"
  using assms(4)
proof (induction rule: rtranclp_induct)
  case base
  have "direct (tree w0) q" using assms(3) usable_entry_facts(1) by (auto simp: orderly_def)
  then show ?case using assms(3) inside.refl by (simp add: started_def)
next
  case (step s t)
  obtain ph w ph' w' where s: "s = (ph, w)" "t = (ph', w')" by (cases s; cases t)
  with step.hyps(2) have "crash_step I (ph, w) (ph', w')" by simp
  then have "w' = w \<or> (\<exists>pid p. proc_step I pid (ph pid) w = (p, w'))" by (rule crash_stepE) auto
  then show ?case
    using step.IH s orderly_step [OF _ _ assms(1,2)] inside.trans by (auto simp: s)
qed

text \<open>C12. Installations that are killed leave a cache the next one can use. Any number of processes install at once,
  each of them may be killed at any moment and its id taken again, and their calls may fail half way:
  nothing outside the cache has changed then, and a later installation that is left alone, by
  whatever process and of whatever archive, succeeds and leaves the version marked with that archive.\<close>
theorem crashes_recover:
  assumes "unpack_laws (i_unpackers I) (i_archive I)" "reaches (i_root I) q" "orderly (tree w0) q"
    "(crash_step I)\<^sup>*\<^sup>* (started w0) (ph, w)" "no_faults w"
    "unpack_laws U archive" "unpacks U archive" "archive \<noteq> []" "ascii digest"
  shows "below_only q (tree w0) (tree w) \<and>
    (\<exists>w'. install U h pid archive digest (i_root I) w = (Ok (join (i_root I) VERSION), w') \<and>
      marker_recorded w' (join (i_root I) VERSION) (cache_key digest))"
proof -
  have i: "inside q w0 w" and o: "orderly (tree w) q" using orderly_reachable [OF assms(1-4)] by simp_all
  have "\<not> file_at (tree w) (q @ [staging_name pid])" "\<not> file_at (tree w) (q @ [VERSION])"
    using o usable_entry_facts(4) by (auto simp: orderly_def)
  from install_works [OF assms(5-8,2) orderly_clean [OF o] this]
  obtain w' where run: "install U h pid archive digest (i_root I) w = (Ok (join (i_root I) VERSION), w')" by blast
  with install_marked [OF assms(6,2) orderly_clean [OF o] assms(9) run] i show ?thesis by (auto simp: inside_def)
qed

subsection \<open>A process killed after unpacking\<close>

lemma cache_step_crash: "(cache_step I)\<^sup>*\<^sup>* s t \<Longrightarrow> (crash_step I)\<^sup>*\<^sup>* s t"
  by (rule rtranclp_mono [THEN predicate2D]) (auto elim!: cache_step.cases intro: crash_step.works)

lemma cache_world_orderly: "orderly (tree cache_world) [''cache'']"
proof -
  have "no_link (tree cache_world) [''cache'', n, MARKER]" "n \<noteq> ''note'' \<Longrightarrow> direct (tree cache_world) ([''cache''] @ [n])" for n
    by (simp_all add: cache_world_def no_link_def MARKER_def direct_def)
  moreover have "VERSION \<noteq> ''note''" "staging_name p \<noteq> ''note''" for p
    by (simp_all add: VERSION_def staging_name_def STAGING_PREFIX_def)
  ultimately show ?thesis by (simp add: orderly_def usable_entry_def)
qed

lemma crashes_recover_witness:
  "\<exists>w w'. lookup (tree w) [''cache'', staging_name 7] \<noteq> None \<and>
     install sample_unpackers quiet_dns 7 ''archive'' ''abc'' ''/cache'' w = (Ok (join ''/cache'' VERSION), w') \<and>
     marker_recorded w' (join ''/cache'' VERSION) (cache_key ''abc'')"
proof -
  let ?I = "sample_installer ''k''"
  obtain ph w where r: "run_schedule ?I [7, 7] (started cache_world) = (ph, w)" by fastforce
  have "length (faults (snd (run_schedule ?I [7, 7] (started cache_world)))) = 0"
    "lookup (tree (snd (run_schedule ?I [7, 7] (started cache_world)))) [''cache'', staging_name 7] \<noteq> None"
    by code_simp+
  then have w: "no_faults w" "lookup (tree w) [''cache'', staging_name 7] \<noteq> None" using r by (simp_all add: no_faults_def)
  have "(crash_step ?I)\<^sup>*\<^sup>* (started cache_world) (ph, w)"
    using cache_step_crash run_schedule_reachable [OF r] by blast
  then have reach: "(crash_step ?I)\<^sup>*\<^sup>* (started cache_world) (ph(7 := Checking), w)"
    using crash_step.killed by (rule rtranclp.rtrancl_into_rtrancl)
  have I: "i_unpackers ?I = sample_unpackers" "i_archive ?I = ''archive''" "i_root ?I = ''/cache''"
    by (simp_all add: sample_installer_def)
  from crashes_recover [of ?I "[''cache'']", unfolded I, OF sample_unpackers_laws cache_world_facts(1) cache_world_orderly
      reach w(1) sample_unpackers_laws sample_unpacks cache_world_facts(6,5), of quiet_dns 7] w(2)
  show ?thesis by blast
qed

end
