(* ===== verification/Spec2Isabelle.thy ===== *)
theory Spec2Isabelle
  imports GuestScript RootfsScript BuildTests BuildScript Crash
begin

text \<open>
  A verification development of \<open>openshell-image-builder\<close>: a command line program that writes a
  Containerfile for a project image and builds it, either with a container tool of the host or in a
  microVM that boots from a root filesystem embedded in the program.

  \<^bold>\<open>The program and its theories.\<close> \<open>main\<close> (\<open>src/main.rs\<close>) checks the flags, chooses what to build with, makes
  a context directory, generates the Containerfile and hands both to a backend. The container backend
  (\<open>container-image-builder\<close>) runs one command. The VM backend (\<open>vm-image-builder\<close>) checks the rootfs, writes
  the Containerfile into the context and hands a request to a runner; the runner of the program
  (\<open>krun.rs\<close>) forks a child that becomes the VM and reports what became of it. The rootfs is the one given on
  the command line or the embedded one, which \<open>build.rs\<close> stages when the program is built and
  \<open>vm_rootfs.rs\<close> unpacks into a cache on first use.

  \<^item> \<open>Prelude\<close>, \<open>Text\<close>, \<open>Net\<close>, \<open>NetParse\<close>, \<open>Paths\<close>: results and I/O errors, UTF-8 text, IP addresses with their
    textual form and parser, and paths, as the standard library of the source has them. A string is a
    list of bytes.
  \<^item> \<open>Tree\<close>, \<open>FileSystem\<close>, \<open>Direct\<close>: a file system with directories, files and symbolic links, and the calls the
    program makes on it. A world is a tree, a working directory and the faults still to come: each call
    takes the next one and may fail with any error, a failed write or removal having done any part of
    its work. \<open>no_faults\<close> says that none will come; a theorem without it holds whatever fails.
    Links are followed at most \<open>SYMLOOP_MAX\<close> = 40 times, as Linux does.
  \<^item> \<open>Containerfile\<close> models \<open>containerfile.rs\<close>; \<open>ContainerBuilder\<close> the container crate, with the temporary files
    of the \<open>tempfile\<close> crate under \<open>tempfile_laws\<close>; \<open>Dns\<close> models \<open>dns.rs\<close>.
  \<^item> \<open>VmImageBuilder\<close> models the crate of that name: \<open>check_rootfs\<close>, \<open>write_containerfile\<close> and \<open>build\<close>. \<open>Krun\<close> is \<open>krun.rs\<close>,
    with the calls of libkrun as values in order, \<open>fork\<close>, \<open>waitpid\<close> and the status macros as
    arguments. \<open>Guest\<close> is how the script in the VM (\<open>vm-build\<close>) reads what it is given, and
    \<open>GuestScript\<close> the script as a whole: its calls in order, the size of its storage in the 64-bit arithmetic
    of the shell and the handler of its exit. \<open>RootfsScript\<close> is \<open>make-rootfs.sh\<close>, which makes the root filesystem
    and the archive that \<open>build.rs\<close> embeds. Both scripts stand on \<open>Shell\<close>: calls under \<open>set -e\<close> and \<open>trap\<close>, with the
    plans of calls that a run keeps to. A call is a value; what it does is an argument.
  \<^item> \<open>VmRootfs\<close> is \<open>vm_rootfs.rs\<close>; \<open>InstallRace\<close> is its \<open>install\<close> cut into steps and run by several processes at
    once, with the reachable states of every interleaving. In \<open>Crash\<close> they may also be killed at any moment and
    their ids taken again.
  \<^item> \<open>BuildScript\<close> is \<open>build.rs\<close>, \<open>Cli\<close> is \<open>main.rs\<close>. \<open>VmRootfsSamples\<close>, \<open>InstallRaceSamples\<close> and \<open>CliSamples\<close> hold
    concrete worlds and hosts at which the theorems are applied; \<open>Liveness\<close> has what succeeds where
    nothing fails.
  \<^item> \<open>UnitTests\<close> and \<open>BuildTests\<close> evaluate the definitions on the unit tests of the program: about eighty tests,
    under their own names, with the inputs and the expectations they have in the source. The evaluation
    is by rewriting in the kernel.

  \<^bold>\<open>Interfaces.\<close> \<open>rendered\<close>, \<open>solid\<close> and \<open>printed\<close> (\<open>Text\<close>), each the one before and more, are what reading
  values back relies on of how they are written: addresses, decimal numbers and the digest are interpreted.
  \<open>line_format\<close> is what reading a text relies on of its lines: the \<open>resolv.conf\<close> and the output of \<open>scutil\<close>, and
  the file the guest writes. \<open>store\<close> (\<open>Tree\<close>) is what moving a directory relies on of the tree. \<open>effect\<close> (\<open>Direct\<close>) is
  what code that strings operations together relies on of each: work at one entry and work inside one
  directory are interpreted, and the cache rests on both.

  \<^bold>\<open>What the theorems show.\<close> From the outside in: what exit code 0 means for each backend
  (\<open>main_container_success\<close>, \<open>main_vm_success\<close>; with a libkrun that reports the status of its workload
  \<open>main_vm_builds_image\<close>: the script in the guest built the image and wrote it out; and
  \<open>main_vm_boots_embedded\<close>: the rootfs that booted is the embedded one), that every way out ends with the removal of the context and
  leaves the files of the host as the backend left them (\<open>run_cleans_up\<close>) and that nothing is unpacked for a VM that cannot run
  (\<open>vm_refused_before_extraction\<close>). For \<open>build\<close>: it does the same before the runner whatever the runner is, and hands
  it one resolved request (\<open>build_hands_one_request\<close>); it changes no file but the Containerfile and
  follows no link to it. For the VM: what the caller is told is what became of the child, but for
  the two exit codes the child keeps for itself (\<open>krun_run_transparent\<close>, \<open>workload_code_mistaken\<close>), and waiting ends
  with the first answer that is not an interruption (\<open>wait_for_returns\<close>). Between host and guest: the
  addresses and paths the script uses are those of the request (\<open>guest_uses_build_nameservers\<close>,
  \<open>vm_success_builds_image\<close>), and the script ends with 0 only as a whole (\<open>vm_build_script_success\<close>), otherwise
  at the first call that fails (\<open>vm_build_script_stops\<close>). The script that makes the rootfs does the same
  (\<open>make_rootfs_success\<close>) and, whatever fails, removes what it made for the time of its run (\<open>make_rootfs_cleans_up\<close>), but for a
  container that is created before its handler is in place (\<open>make_rootfs_leaves_container\<close>). For the cache: a successful
  installation is marked with the embedded archive, which is what the build script checked
  (\<open>embedded_rootfs_installed\<close>), a failed one leaves nothing behind, and nothing outside the cache is
  touched. Processes together: alone, a process is \<open>install\<close> (\<open>proc_run_is_install\<close>); in every interleaving
  complete staging directories stay as they are, entry by entry, and, without faults, the cache settles; but
  what another process installs after the second check of \<open>install\<close> is removed, or makes it fail, in any
  cache (\<open>racing_install_window\<close>). Killed processes never stand in the way: whatever they and
  failing calls have left, the next installation succeeds (\<open>crashes_recover\<close>). For names and addresses: the filter for nameservers as
  numeric ranges, the sanitizing loop against its specification, and round trips of the two
  resolver formats.

  \<^bold>\<open>Parameters.\<close> Crates that are not in the repository are arguments: \<open>tempfile\<close> (\<open>tempfiles\<close>, under
  \<open>tempfile_laws\<close>: a new temporary is a new entry; its removal touches nothing else and takes it away unless
  it fails, which the destructor ignores), \<open>tar\<close> and the
  decoder of \<open>zstd\<close> (\<open>unpackers\<close>, under \<open>unpack_laws\<close>: an unpacking works inside its destination, leaves it a
  directory and the archive has no link of the marker's name), \<open>zstd\<close> and \<open>sha2\<close> in the build script
  (\<open>codecs\<close>, without laws), \<open>which\<close>, \<open>dirs\<close>, the process id, libkrun, \<open>Command::status\<close>, the host's resolver
  configuration, and the programs that the scripts call, with the kernel of the guest (\<open>programs\<close>, without laws). What is
  relied on of libkrun is \<open>boots_script\<close>: it ends the child with 0 only where the script ended with 0. Theorems about the cache ask for a root given by an absolute path without links on
  it (\<open>reaches\<close>, \<open>clean\<close>).

  \<^bold>\<open>Not modelled.\<close> The parsing of the command line by \<open>clap\<close> but for its value parsers, log lines, the tests of
  the built program, and the Containerfile of the rootfs image, which has no logic of its own. File
  permissions matter only where the code reads them; owners, times and other processes that change the
  tree between two calls are left out but in \<open>InstallRace\<close>, where the processes of the program itself
  interleave between the calls of \<open>install\<close>, each of which is one step.
\<close>

subsection \<open>From the build of the program to its cache\<close>

text \<open>C6. What the build script embedded is what the program installs: after a build that ended well
  and an installation from its outputs that ended well, whatever failed on the way, the cache
  directory of the version is marked with the digest of an archive that was seen to decode in
  whole, and the archive is not the empty placeholder.\<close>
theorem embedded_rootfs_installed:
  assumes "build_main env z v = (out, Ok (), v')" "env_out_dir env = Ok out_dir"
    "env_archive env = Some archive" "plain_out out_dir p v"
    "embeds v' p bytes digest"
    "unpack_laws U bytes" "reaches root q" "clean (tree w) q pid"
    "install U dns pid bytes digest root w = (Ok dir, w')"
  shows "dir = join root VERSION \<and> (\<exists>plain. zstd_decode_all z bytes = Ok plain \<and> plain \<noteq> []) \<and> bytes \<noteq> [] \<and>
    marker_recorded w' dir (VERSION @ ''-'' @ hex (sha256 z bytes))"
proof -
  have e: "digest = hex (sha256 z bytes)" "\<exists>plain. zstd_decode_all z bytes = Ok plain \<and> plain \<noteq> []"
    using build_embedded [OF assms(1-4)] assms(5) by (auto simp: embeds_def)
  have "cache_key digest = VERSION @ ''-'' @ hex (sha256 z bytes)"
    using e by (simp add: cache_key_def hex.trim_shown)
  moreover have "ascii digest" using e(1) hex.show_ascii by simp
  moreover have "bytes \<noteq> []" using assms(9) by (auto simp: install_def)
  ultimately show ?thesis using install_marked [OF assms(6,7,8) _ assms(9)] e(2) by auto
qed

text \<open>A codec whose output is the archive the sample unpacks.\<close>

definition archive_codecs :: codecs where
  "archive_codecs =
     \<lparr>zstd_encode_all = (\<lambda>level data. Ok ''archive''), zstd_decode_all = (\<lambda>data. if data = ''archive'' then Ok ''tar'' else Err invalid_utf8),
      sha256 = (\<lambda>data. rev (take 2 data))\<rparr>"

lemma embedded_rootfs_installed_witness:
  "\<exists>w'. marker_recorded w' ''/cache/0.13.0-next'' (VERSION @ ''-'' @ hex ''ra'')"
proof -
  have "is_ok (fst (stage_archive archive_codecs ''/out'' ''/a.tar'' script_world))" by code_simp
  then obtain line v' where "stage_archive archive_codecs ''/out'' ''/a.tar'' script_world = (Inr line, v')"
    by (metis is_ok_iff prod.collapse)
  then obtain out where run: "build_main (script_env (Some ''/a.tar'')) archive_codecs script_world = (out, Ok (), v')"
    by (simp add: build_main_def script_env_def Let_def)
  have env: "env_out_dir (script_env (Some ''/a.tar'')) = Ok ''/out''" "env_archive (script_env (Some ''/a.tar'')) = Some ''/a.tar''"
    by (simp_all add: script_env_def)
  obtain bytes where b: "embeds v' [''out''] bytes (hex (sha256 archive_codecs bytes))" "is_ok (zstd_decode_all archive_codecs bytes)"
    using build_embedded [OF run env script_world_plain] by auto
  then have "bytes = ''archive''" by (simp add: archive_codecs_def split: if_splits)
  then have e: "embeds v' [''out''] ''archive'' (hex (sha256 archive_codecs ''archive''))" using b by simp
  obtain w' where i: "install sample_unpackers quiet_dns 7 ''archive'' (hex (sha256 archive_codecs ''archive'')) ''/cache''
      cache_world = (Ok ''/cache/0.13.0-next'', w')"
    using cache_world_install by (metis prod.collapse)
  from embedded_rootfs_installed [OF run env script_world_plain e sample_unpackers_laws cache_world_facts(1,2) i]
  show ?thesis by (auto simp: archive_codecs_def)
qed


subsection \<open>From the command line to the image\<close>









end
